theory Spec2Isabelle
  imports Main "HOL-Library.Word"
begin

section \<open>Values of the program\<close>

text \<open>
  A Python \<open>str\<close> is a sequence of Unicode code points and \<open>len\<close> counts code points,
  so a string is a list of code point numbers. \<open>bytes\<close> is a list of octets.
\<close>

type_synonym ustr = "nat list"
type_synonym bytes = "8 word list"

text \<open>\<open>str.isspace\<close> of one code point: the code points Python treats as whitespace.\<close>

definition isspace :: "nat \<Rightarrow> bool" where
  "isspace c \<longleftrightarrow>
     (9 \<le> c \<and> c \<le> 13) \<or> (28 \<le> c \<and> c \<le> 32) \<or> c = 133 \<or> c = 160 \<or> c = 5760 \<or>
     (8192 \<le> c \<and> c \<le> 8202) \<or> c = 8232 \<or> c = 8233 \<or> c = 8239 \<or> c = 8287 \<or> c = 12288"

text \<open>\<open>s.strip()\<close>: leading and trailing whitespace removed.\<close>

definition strip :: "ustr \<Rightarrow> ustr" where
  "strip s = rev (dropWhile isspace (rev (dropWhile isspace s)))"

text \<open>\<open>s.endswith(t)\<close> for a tuple \<open>t\<close> of suffixes: true when one of them is a suffix.\<close>

definition endswith :: "ustr \<Rightarrow> ustr list \<Rightarrow> bool" where
  "endswith s sufs =
     list_ex (\<lambda>suf. length suf \<le> length s \<and> drop (length s - length suf) s = suf) sufs"

text \<open>\<open>xs[i:]\<close> for a Python int \<open>i\<close>: a negative index counts from the end, and both
  directions clamp to the list.\<close>

definition slice_from :: "'a list \<Rightarrow> int \<Rightarrow> 'a list" where
  "slice_from xs i =
     (if i < 0 then drop (nat (int (length xs) + i)) xs else drop (nat i) xs)"

datatype exn =
    RuntimeError
  | ValueError
  | AttributeError
  | HTTPException nat
  | ProviderError nat
  | AudioopError
  | QueueFull
  | RecursionError

section \<open>Conversational memory\<close>

datatype role = System | User | Assistant

datatype chat_msg = Msg role ustr

text \<open>
  \<open>_trim_session(msgs, keep)\<close>, lines 339-345. The list is mutated in place; the model
  returns the new list.
\<close>

definition trim_session :: "'a list \<Rightarrow> int \<Rightarrow> 'a list" where
  "trim_session msgs keep =
     (if int (length msgs) \<le> 1 + keep then msgs
      else take 1 msgs @ slice_from msgs (- keep))"

section \<open>The synthesis bridge worker\<close>

text \<open>
  The worker \<open>_run\<close> of \<open>_qwen_chat_to_realtime_tts_pcm_stream\<close> (lines 244-304) talks to two
  remote services. What each call answers is not decided by this program, so the answers are
  parameters: \<open>None\<close> is a call that returns, \<open>Some e\<close> one that raises \<open>e\<close>. The reply stream
  is the list of fragments it yields, and the exception that ends it, if any.
\<close>

record provider =
  new_client_res :: "exn option"
  connect_res :: "exn option"
  update_session_res :: "exn option"
  append_text_res :: "nat \<Rightarrow> ustr \<Rightarrow> exn option"
  finish_res :: "exn option"
  close_res :: "exn option"
  chat_stream_res :: "ustr list \<times> exn option"
  chat_res :: "exn + ustr"

text \<open>The synthesis session as the worker sees it: the texts it accepted, in order, and
  how many times \<open>append_text\<close> was called.\<close>

record tts_client =
  sent_text :: "ustr list"
  n_append :: nat
  finished :: bool
  is_closed :: bool

definition new_client :: tts_client where
  "new_client = \<lparr>sent_text = [], n_append = 0, finished = False, is_closed = False\<rparr>"

text \<open>\<open>client.append_text(t)\<close>: the call is counted whether it raises or not.\<close>

definition client_append :: "provider \<Rightarrow> tts_client \<Rightarrow> ustr \<Rightarrow> exn option \<times> tts_client" where
  "client_append p c t =
     (case append_text_res p (n_append c) t of
        Some e \<Rightarrow> (Some e, c\<lparr>n_append := Suc (n_append c)\<rparr>)
      | None \<Rightarrow> (None, c\<lparr>sent_text := sent_text c @ [t], n_append := Suc (n_append c)\<rparr>))"

text \<open>The local variables of the reply loop.\<close>

record feed =
  assistant_text_parts :: "ustr list"
  pending :: ustr
  sent_any :: bool
  client :: tts_client

text \<open>The six suffixes of line 268: ideographic full stop, fullwidth exclamation mark,
  fullwidth question mark, \<open>!\<close>, \<open>?\<close> and line feed.\<close>

definition terminators :: "ustr list" where
  "terminators = [[12290], [65281], [65311], [33], [63], [10]]"

text \<open>The \<open>for delta in ...\<close> loop, lines 262-272, over the fragments the stream yields.
  An exception of \<open>append_text\<close> leaves the loop with the variables as they are.\<close>

fun feed_deltas :: "provider \<Rightarrow> ustr list \<Rightarrow> feed \<Rightarrow> exn option \<times> feed" where
  "feed_deltas p [] f = (None, f)"
| "feed_deltas p (delta # rest) f =
     (let f1 = f\<lparr>assistant_text_parts := assistant_text_parts f @ [delta],
                 pending := pending f @ delta\<rparr>
      in if (\<not> sent_any f1 \<and> 8 \<le> length (pending f1)) \<or> 24 \<le> length (pending f1)
            \<or> endswith (pending f1) terminators
         then (case client_append p (client f1) (pending f1) of
                 (Some e, c) \<Rightarrow> (Some e, f1\<lparr>client := c\<rparr>)
               | (None, c) \<Rightarrow>
                   feed_deltas p rest (f1\<lparr>pending := [], sent_any := True, client := c\<rparr>))
         else feed_deltas p rest f1)"

text \<open>The handler of line 273: any exception of the loop, the stream's or
  \<open>append_text\<close>'s, falls back to the blocking reply call.\<close>

definition chat_fallback :: "provider \<Rightarrow> feed \<Rightarrow> exn option \<times> feed" where
  "chat_fallback p f =
     (case chat_res p of
        Inl e \<Rightarrow> (Some e, f)
      | Inr full \<Rightarrow> (None, f\<lparr>assistant_text_parts := [full], pending := full\<rparr>))"

definition feed_reply :: "provider \<Rightarrow> feed \<Rightarrow> exn option \<times> feed" where
  "feed_reply p f =
     (case feed_deltas p (fst (chat_stream_res p)) f of
        (Some e, f') \<Rightarrow> chat_fallback p f'
      | (None, f') \<Rightarrow>
          (case snd (chat_stream_res p) of
             Some e \<Rightarrow> chat_fallback p f'
           | None \<Rightarrow> (None, f')))"

text \<open>The fixed sentence of line 284.\<close>

definition fallback_text :: ustr where
  "fallback_text = [25105, 24819, 20102, 19968, 19979, 65292, 20294, 19981, 30693, 36947,
     24590, 20040, 22238, 31572, 12290]"

text \<open>
  Lines 256-285 of the \<open>try\<close> block: the reply is fed to the session, what is still
  pending is sent, and the text of the assistant turn is made. The result is the exception
  that ends the block (if any), the client, and \<open>full_text\<close>.
\<close>

definition send_reply :: "provider \<Rightarrow> exn option \<times> tts_client \<times> ustr" where
  "send_reply p =
     (case feed_reply p \<lparr>assistant_text_parts = [], pending = [], sent_any = False,
                          client = new_client\<rparr> of
        (Some e, f) \<Rightarrow> (Some e, client f, [])
      | (None, f) \<Rightarrow>
     (case (if pending f \<noteq> [] then client_append p (client f) (pending f)
            else (None, client f)) of
        (Some e, c1) \<Rightarrow> (Some e, c1, [])
      | (None, c1) \<Rightarrow>
     (let full_text = strip (concat (assistant_text_parts f))
      in if full_text = []
         then (case client_append p c1 fallback_text of (r, c2) \<Rightarrow> (r, c2, fallback_text))
         else (None, c1, full_text))))"

text \<open>
  The \<open>try\<close> block, lines 247-291: the exception that leaves it (if any), the client (if it
  was created) and the message list. \<open>stop_evt.wait\<close> changes nothing the worker owns.
\<close>

definition run_body ::
  "provider \<Rightarrow> int \<Rightarrow> chat_msg list \<Rightarrow> exn option \<times> tts_client option \<times> chat_msg list" where
  "run_body p keep msgs =
     (case new_client_res p of
        Some e \<Rightarrow> (Some e, None, msgs)
      | None \<Rightarrow>
     (case connect_res p of
        Some e \<Rightarrow> (Some e, Some new_client, msgs)
      | None \<Rightarrow>
     (case update_session_res p of
        Some e \<Rightarrow> (Some e, Some new_client, msgs)
      | None \<Rightarrow>
     (case send_reply p of
        (Some e, c, full_text) \<Rightarrow> (Some e, Some c, msgs)
      | (None, c, full_text) \<Rightarrow>
     (let msgs' = trim_session (msgs @ [Msg Assistant full_text]) keep
      in case finish_res p of
           Some e \<Rightarrow> (Some e, Some c, msgs')
         | None \<Rightarrow> (None, Some (c\<lparr>finished := True\<rparr>), msgs'))))))"

text \<open>
  The bridge handle: the error slot \<open>cb.error\<close>, the event \<open>stop_evt\<close>, and the queue
  \<open>out_q\<close> of capacity 256 whose items are chunks or the end marker \<open>None\<close>.
\<close>

record bridge =
  error :: "exn option"
  stop_evt :: bool
  out_q :: "bytes option list"

definition maxsize :: nat where
  "maxsize = 256"

text \<open>\<open>q.put(x, timeout=t)\<close> on a queue that holds \<open>q\<close> when the timeout ends: it raises
  \<open>Full\<close> when no slot came free.\<close>

definition queue_put :: "bytes option list \<Rightarrow> bytes option \<Rightarrow> exn + bytes option list" where
  "queue_put q x = (if length q < maxsize then Inr (q @ [x]) else Inl QueueFull)"

text \<open>
  \<open>_run\<close> whole: the \<open>try\<close> block, the \<open>except\<close> clause of lines 292-294 and the \<open>finally\<close>
  clause of lines 295-304, whose two inner handlers swallow what \<open>close\<close> and \<open>put\<close> raise.
  The callback and the consumer work on the handle from other threads; \<open>b\<close> is the handle
  as the two clauses find it.
\<close>

definition run ::
  "provider \<Rightarrow> int \<Rightarrow> chat_msg list \<Rightarrow> bridge \<Rightarrow> chat_msg list \<times> tts_client option \<times> bridge" where
  "run p keep msgs b =
     (case run_body p keep msgs of
        (r, c, msgs') \<Rightarrow>
          (let b1 = (case r of Some e \<Rightarrow> b\<lparr>error := Some e, stop_evt := True\<rparr> | None \<Rightarrow> b);
               c' = (case c of
                       None \<Rightarrow> None
                     | Some cl \<Rightarrow>
                         (case close_res p of
                            Some e \<Rightarrow> Some cl
                          | None \<Rightarrow> Some (cl\<lparr>is_closed := True\<rparr>)));
               b2 = (case queue_put (out_q b1) None of
                       Inl e \<Rightarrow> b1
                     | Inr q \<Rightarrow> b1\<lparr>out_q := q\<rparr>)
           in (msgs', c', b2)))"

section \<open>Consuming the channel\<close>

text \<open>
  \<open>audioop.ratecv(chunk, 2, 1, in_sr, target_sr, state)\<close> is a library function: the loops
  below take it as a parameter. It raises, or returns the converted chunk and a new state
  \<open>(d, ((prev, cur),))\<close>; the state before the first call is \<open>None\<close>.
\<close>

type_synonym rstate = "int \<times> int \<times> int"
type_synonym ratecv = "bytes \<Rightarrow> int \<Rightarrow> int \<Rightarrow> rstate option \<Rightarrow> exn + bytes \<times> rstate"

text \<open>How a consumer loop ends: it left the loop, an exception left it, or the items it
  was given ran out and it is still waiting on the queue.\<close>

datatype ending = Exited | Raised exn | Waiting

text \<open>
  \<open>_iter_pcm\<close> of \<open>chat_pcm\<close>, lines 661-684, over the items \<open>out_q.get()\<close> returns, in order.
  The result is the list of chunks the generator yields, the resample state, and how the
  loop ends; line 684 sets \<open>stop_evt\<close> when it ends with \<open>Exited\<close>.
\<close>

fun iter_pcm ::
  "ratecv \<Rightarrow> int \<Rightarrow> int \<Rightarrow> bytes option list \<Rightarrow> rstate option
     \<Rightarrow> bytes list \<times> rstate option \<times> ending" where
  "iter_pcm rc target_sr in_sr [] state = ([], state, Waiting)"
| "iter_pcm rc target_sr in_sr (None # q) state = ([], state, Exited)"
| "iter_pcm rc target_sr in_sr (Some chunk # q) state =
     (if chunk = [] then iter_pcm rc target_sr in_sr q state
      else
        (let chunk1 = (if length chunk mod 2 = 1 then butlast chunk else chunk)
         in if chunk1 = [] then iter_pcm rc target_sr in_sr q state
            else if target_sr \<noteq> 0 \<and> in_sr \<noteq> 0 \<and> target_sr \<noteq> in_sr
            then (case rc chunk1 in_sr target_sr state of
                    Inl e \<Rightarrow> ([], state, Raised e)
                  | Inr (chunk2, state') \<Rightarrow>
                      if chunk2 = [] then iter_pcm rc target_sr in_sr q (Some state')
                      else (case iter_pcm rc target_sr in_sr q (Some state') of
                              (ys, st, e) \<Rightarrow> (chunk2 # ys, st, e)))
            else (case iter_pcm rc target_sr in_sr q state of
                    (ys, st, e) \<Rightarrow> (chunk1 # ys, st, e))))"

text \<open>
  The forwarding loop of \<open>_ws_handle_listen_stop\<close>, lines 810-841. Each iteration reads state
  that other code writes, and these reads are the inputs of a turn: whether
  \<open>_ws_handle_abort\<close> ran since the previous test of \<open>session.stop_speaking\<close>, what
  \<open>out_q.get(timeout=0.1)\<close> gave (\<open>Empty s\<close>: it raised \<open>queue.Empty\<close> and
  \<open>stop_evt.is_set()\<close> was \<open>s\<close>), and whether \<open>_ws_send_audio\<close> succeeded. The endpoint
  itself reads no message while the handler runs (line 933), so in the runs of one
  connection \<open>aborted\<close> is \<open>False\<close> in every turn; the field is there for the loop's own
  test of the flag (line 811).
\<close>

datatype poll = Empty bool | Item "bytes option"

record turn =
  aborted :: bool
  polled :: poll
  send_ok :: bool

text \<open>The result: the frames sent to the client, \<open>session.stop_speaking\<close>, the resample
  state, and how the loop ends.\<close>

fun ws_forward ::
  "ratecv \<Rightarrow> int \<Rightarrow> int \<Rightarrow> turn list \<Rightarrow> bool \<Rightarrow> rstate option
     \<Rightarrow> bytes list \<times> bool \<times> rstate option \<times> ending" where
  "ws_forward rc target_sr in_sr [] stop state = ([], stop, state, Waiting)"
| "ws_forward rc target_sr in_sr (u # us) stop state =
     (let stop1 = (stop \<or> aborted u)
      in if stop1 then ([], stop1, state, Exited)
         else
           (case polled u of
              Empty is_set \<Rightarrow>
                if is_set then ([], stop1, state, Exited)
                else ws_forward rc target_sr in_sr us stop1 state
            | Item None \<Rightarrow> ([], stop1, state, Exited)
            | Item (Some chunk) \<Rightarrow>
                if chunk = [] then ws_forward rc target_sr in_sr us stop1 state
                else
                  (let chunk1 = (if length chunk mod 2 = 1 then butlast chunk else chunk)
                   in if chunk1 = [] then ws_forward rc target_sr in_sr us stop1 state
                      else if target_sr \<noteq> 0 \<and> in_sr \<noteq> 0 \<and> target_sr \<noteq> in_sr
                      then (case rc chunk1 in_sr target_sr state of
                              Inl e \<Rightarrow> ([], stop1, state, Raised e)
                            | Inr (chunk2, state') \<Rightarrow>
                                if chunk2 = []
                                then ws_forward rc target_sr in_sr us stop1 (Some state')
                                else if send_ok u
                                then (case ws_forward rc target_sr in_sr us stop1 (Some state') of
                                        (ys, sp, st, e) \<Rightarrow> (chunk2 # ys, sp, st, e))
                                else ([], stop1, Some state', Exited))
                      else if send_ok u
                      then (case ws_forward rc target_sr in_sr us stop1 state of
                              (ys, sp, st, e) \<Rightarrow> (chunk1 # ys, sp, st, e))
                      else ([], stop1, state, Exited))))"

section \<open>The WebSocket connection\<close>

text \<open>An ASCII literal of the source as a \<open>str\<close>.\<close>

abbreviation ascii :: "string \<Rightarrow> ustr" where
  "ascii s \<equiv> map of_char s"

text \<open>What \<open>json.loads\<close> returns (numbers are integers here), and \<open>d.get(k, default)\<close> on
  a decoded object, whose keys are distinct.\<close>

datatype json =
    JNull
  | JBool bool
  | JInt int
  | JStr ustr
  | JArr "json list"
  | JObj "(ustr \<times> json) list"

definition dict_get :: "(ustr \<times> json) list \<Rightarrow> ustr \<Rightarrow> json \<Rightarrow> json" where
  "dict_get d k dflt = (case map_of d k of None \<Rightarrow> dflt | Some v \<Rightarrow> v)"

text \<open>
  A message \<open>ws.receive()\<close> returns: a disconnect, a text frame or a binary frame. A text
  frame comes with what \<open>json.loads\<close> does on its payload: it raises \<open>JSONDecodeError\<close>, it
  returns a value, or it raises another exception (\<open>RecursionError\<close> on a payload that is
  nested too deeply, which the parser meets before it can tell that the payload is
  malformed).
\<close>

datatype decoded = JSONDecodeError | Decoded json | Raises exn

datatype message = Disconnect | Text decoded | Bytes bytes

text \<open>\<open>WsSession\<close>, lines 702-710. \<open>audio_buffer\<close> is a \<open>BytesIO\<close> that is only ever written
  at its end and read whole, so it is the bytes written so far.\<close>

datatype phase = Idle | Listening | Speaking

record ws_session =
  session_id :: ustr
  device_id :: ustr
  audio_buffer :: bytes
  sample_rate :: json
  state :: phase
  stop_speaking :: bool

definition WsSession :: "ustr \<Rightarrow> ws_session" where
  "WsSession sid = \<lparr>session_id = sid, device_id = ascii ''default'', audio_buffer = [],
     sample_rate = JInt 16000, state = Idle, stop_speaking = False\<rparr>"

text \<open>What the server does that others can see, in order: the JSON messages and binary
  frames it sends, the transcription call, the start of a bridge, and \<open>stop_evt.set()\<close>.\<close>

datatype server_msg =
    Hello ustr int
  | Stt ustr ustr
  | Tts_start ustr
  | Tts_stop ustr

datatype effect =
    Send_json server_msg
  | Send_audio bytes
  | Asr_call bytes
  | Bridge_call "chat_msg list"
  | Stop_evt_set

text \<open>
  One connection: its session, the store \<open>_SESSIONS\<close> and the effects so far.
\<close>

record conn =
  session :: ws_session
  sessions :: "ustr \<Rightarrow> chat_msg list option"
  trace :: "effect list"

text \<open>
  What the process environment and the services answer while one message is handled:
  \<open>_env("DASHSCOPE_API_KEY")\<close> (\<open>None\<close>: it raises \<open>RuntimeError\<close>), the two \<open>int(os.getenv(...))\<close>
  (\<open>None\<close>: \<open>int\<close> raises \<open>ValueError\<close>), the system prompt, \<open>_pcm_to_wav\<close> (the \<open>wave\<close> library),
  \<open>_qwen_asr\<close>, the call of \<open>_qwen_chat_to_realtime_tts_pcm_stream\<close> (it raises, or returns the
  session's output rate), \<open>audioop.ratecv\<close>, and the turns of the forwarding loop.
\<close>

record ws_env =
  env_api_key :: "ustr option"
  env_tts_sample_rate :: "int option"
  env_max_turns :: "int option"
  env_system_prompt :: ustr
  pcm_to_wav :: "bytes \<Rightarrow> json \<Rightarrow> exn + bytes"
  qwen_asr :: "bytes \<Rightarrow> exn + ustr"
  start_bridge :: "chat_msg list \<Rightarrow> exn + int"
  env_ratecv :: ratecv
  turns :: "turn list"

text \<open>\<open>_session(device_id)\<close>, lines 325-336: the key, the store and the message list.\<close>

definition session_of ::
  "(ustr \<Rightarrow> chat_msg list option) \<Rightarrow> ustr \<Rightarrow> ustr
     \<Rightarrow> ustr \<times> (ustr \<Rightarrow> chat_msg list option) \<times> chat_msg list" where
  "session_of store dev system_prompt =
     (let d0 = strip (if dev = [] then ascii ''default'' else dev);
          d = (if d0 = [] then ascii ''default'' else d0)
      in case store d of
           None \<Rightarrow> (d, store(d \<mapsto> [Msg System system_prompt]), [Msg System system_prompt])
         | Some msgs \<Rightarrow> (d, store, msgs))"

text \<open>How a handler ends: it returns, it raises, or it is still in its forwarding loop
  when the turns run out.\<close>

datatype outcome = Returned | Raise exn | Busy

definition add_trace :: "effect list \<Rightarrow> conn \<Rightarrow> conn" where
  "add_trace es c = c\<lparr>trace := trace c @ es\<rparr>"

definition set_state :: "phase \<Rightarrow> conn \<Rightarrow> conn" where
  "set_state ph c = c\<lparr>session := (session c)\<lparr>state := ph\<rparr>\<rparr>"

text \<open>\<open>_ws_handle_listen_start\<close>, lines 733-737.\<close>

definition ws_handle_listen_start :: "conn \<Rightarrow> conn" where
  "ws_handle_listen_start c =
     c\<lparr>session := (session c)\<lparr>audio_buffer := [], state := Listening\<rparr>\<rparr>"

text \<open>\<open>_ws_handle_abort\<close>, lines 859-862.\<close>

definition ws_handle_abort :: "conn \<Rightarrow> conn" where
  "ws_handle_abort c = c\<lparr>session := (session c)\<lparr>stop_speaking := True\<rparr>\<rparr>"

text \<open>
  \<open>_ws_handle_listen_stop\<close> from line 787 on: memory, the bridge, the forwarding loop and
  the closing notification. The bridge's worker runs in a thread of its own (\<open>run\<close> above);
  what it appends to the message list is not part of this handler.
\<close>

definition ws_speak :: "ws_env \<Rightarrow> int \<Rightarrow> ustr \<Rightarrow> conn \<Rightarrow> outcome \<times> conn" where
  "ws_speak env target_sr user_text c =
     (case session_of (sessions c) (device_id (session c)) (env_system_prompt env) of
        (d, store, msgs) \<Rightarrow>
     (let c1 = c\<lparr>sessions := store(d \<mapsto> msgs @ [Msg User user_text])\<rparr>
      in case env_max_turns env of
           None \<Rightarrow> (Raise ValueError, c1)
         | Some keep \<Rightarrow>
     (let msgs2 = trim_session (msgs @ [Msg User user_text]) keep;
          sid = session_id (session c);
          c2 = add_trace [Send_json (Tts_start sid), Bridge_call msgs2]
                 (c1\<lparr>sessions := store(d \<mapsto> msgs2)\<rparr>);
          done = (\<lambda>c'. set_state Idle (add_trace [Send_json (Tts_stop sid)] c'))
      in case start_bridge env msgs2 of
           Inl e \<Rightarrow> (Returned, done c2)
         | Inr in_sr \<Rightarrow>
             (case ws_forward (env_ratecv env) target_sr in_sr (turns env)
                     (stop_speaking (session c2)) None of
                (frames, stop, st, ending) \<Rightarrow>
                  (let c3 = add_trace (map Send_audio frames)
                              (c2\<lparr>session := (session c2)\<lparr>stop_speaking := stop\<rparr>\<rparr>)
                   in case ending of
                        Waiting \<Rightarrow> (Busy, c3)
                      | Raised e \<Rightarrow> (Returned, done c3)
                      | Exited \<Rightarrow> (Returned, done (add_trace [Stop_evt_set] c3)))))))"

text \<open>\<open>_ws_handle_listen_stop\<close>, lines 740-785, and then \<open>ws_speak\<close>.\<close>

definition ws_handle_listen_stop :: "ws_env \<Rightarrow> conn \<Rightarrow> outcome \<times> conn" where
  "ws_handle_listen_stop env c =
     (if state (session c) \<noteq> Listening then (Returned, c)
      else
     (let c1 = c\<lparr>session := (session c)\<lparr>state := Speaking, stop_speaking := False\<rparr>\<rparr>
      in case env_api_key env of
           None \<Rightarrow> (Raise RuntimeError, c1)
         | Some api_key \<Rightarrow>
     (case env_tts_sample_rate env of
        None \<Rightarrow> (Raise ValueError, c1)
      | Some target_sr \<Rightarrow>
     (let pcm_bytes = audio_buffer (session c1)
      in if length pcm_bytes < 1600 then (Returned, set_state Idle c1)
         else
     (case pcm_to_wav env pcm_bytes (sample_rate (session c1)) of
        Inl e \<Rightarrow> (Raise e, c1)
      | Inr wav_bytes \<Rightarrow>
     (let c2 = add_trace [Asr_call wav_bytes] c1
      in case qwen_asr env wav_bytes of
           Inl e \<Rightarrow> (Returned, set_state Idle c2)
         | Inr text \<Rightarrow>
             if strip text = [] then (Returned, set_state Idle c2)
             else ws_speak env target_sr (strip text)
                    (add_trace [Send_json (Stt (session_id (session c2)) (strip text))] c2)))))))"

text \<open>
  One turn of the receive loop of \<open>websocket_endpoint\<close>, lines 894-941: the message is
  handled, and the connection is then \<open>Open\<close> for the next message, \<open>Closed\<close> (the loop was
  left by \<open>break\<close> or by an exception), or \<open>Stuck\<close> in a handler that has not returned.
  Line 904 catches \<open>JSONDecodeError\<close> only: any other exception of \<open>json.loads\<close>, and the
  \<open>AttributeError\<close> of \<open>.get\<close> on a value that is not an object, reach the handler of line
  945, which leaves the loop.
\<close>

datatype status = Open | Closed | Stuck

definition of_outcome :: "outcome \<Rightarrow> status" where
  "of_outcome r = (case r of Returned \<Rightarrow> Open | Raise e \<Rightarrow> Closed | Busy \<Rightarrow> Stuck)"

definition ws_hello :: "ws_env \<Rightarrow> (ustr \<times> json) list \<Rightarrow> conn \<Rightarrow> status \<times> conn" where
  "ws_hello env data c =
     (case dict_get data (ascii ''audio_params'') (JObj []) of
        JObj audio_params \<Rightarrow>
          (let c1 = c\<lparr>session := (session c)
                      \<lparr>sample_rate := dict_get audio_params (ascii ''sample_rate'') (JInt 16000)\<rparr>\<rparr>
           in case env_tts_sample_rate env of
                None \<Rightarrow> (Closed, c1)
              | Some sr \<Rightarrow> (Open, add_trace [Send_json (Hello (session_id (session c)) sr)] c1))
      | _ \<Rightarrow> (Closed, c))"

definition ws_step :: "ws_env \<Rightarrow> message \<Rightarrow> conn \<Rightarrow> status \<times> conn" where
  "ws_step env m c =
     (case m of
        Disconnect \<Rightarrow> (Closed, c)
      | Text JSONDecodeError \<Rightarrow> (Open, c)
      | Text (Raises e) \<Rightarrow> (Closed, c)
      | Text (Decoded (JObj data)) \<Rightarrow>
          (let msg_type = dict_get data (ascii ''type'') (JStr [])
           in if msg_type = JStr (ascii ''hello'') then ws_hello env data c
              else if msg_type = JStr (ascii ''listen'')
              then (let st = dict_get data (ascii ''state'') (JStr [])
                    in if st = JStr (ascii ''start'') then (Open, ws_handle_listen_start c)
                       else if st = JStr (ascii ''stop'')
                       then (case ws_handle_listen_stop env c of (r, c') \<Rightarrow> (of_outcome r, c'))
                       else (Open, c))
              else if msg_type = JStr (ascii ''abort'') then (Open, ws_handle_abort c)
              else (Open, c))
      | Text (Decoded other) \<Rightarrow> (Closed, c)
      | Bytes b \<Rightarrow>
          if state (session c) = Listening
          then (Open, c\<lparr>session := (session c)\<lparr>audio_buffer := audio_buffer (session c) @ b\<rparr>\<rparr>)
          else (Open, c))"

text \<open>The receive loop over the messages that arrive, each with the environment's answers
  while it is handled. The loop goes on only while the connection is open.\<close>

fun ws_run :: "(ws_env \<times> message) list \<Rightarrow> conn \<Rightarrow> status \<times> conn" where
  "ws_run [] c = (Open, c)"
| "ws_run ((env, m) # rest) c =
     (case ws_step env m c of
        (Open, c') \<Rightarrow> ws_run rest c'
      | (st, c') \<Rightarrow> (st, c'))"

text \<open>The connection after \<open>ws.accept()\<close>, lines 882-889.\<close>

definition accept :: "ustr \<Rightarrow> ustr \<Rightarrow> (ustr \<Rightarrow> chat_msg list option) \<Rightarrow> conn" where
  "accept sid dev store = \<lparr>session = (WsSession sid)\<lparr>device_id := dev\<rparr>, sessions = store,
     trace = []\<rparr>"

section \<open>Inputs of the examples\<close>

text \<open>
  The control messages of the protocol (the docstring of \<open>websocket_endpoint\<close>, lines
  870-880) as \<open>ws.receive()\<close> delivers them, and concrete answers of the services for the
  worked examples below.
\<close>

definition hello_msg :: "int \<Rightarrow> message" where
  "hello_msg sr = Text (Decoded (JObj [(ascii ''type'', JStr (ascii ''hello'')),
     (ascii ''version'', JInt 1),
     (ascii ''audio_params'', JObj [(ascii ''sample_rate'', JInt sr)])]))"

definition listen_start_msg :: message where
  "listen_start_msg = Text (Decoded (JObj [(ascii ''type'', JStr (ascii ''listen'')),
     (ascii ''state'', JStr (ascii ''start'')), (ascii ''mode'', JStr (ascii ''auto''))]))"

definition listen_stop_msg :: message where
  "listen_stop_msg = Text (Decoded (JObj [(ascii ''type'', JStr (ascii ''listen'')),
     (ascii ''state'', JStr (ascii ''stop''))]))"

definition abort_msg :: message where
  "abort_msg = Text (Decoded (JObj [(ascii ''type'', JStr (ascii ''abort''))]))"

definition ok_provider :: provider where
  "ok_provider = \<lparr>new_client_res = None, connect_res = None, update_session_res = None,
     append_text_res = (\<lambda>n t. None), finish_res = None, close_res = None,
     chat_stream_res = ([[20320], [22909], [12290]], None), chat_res = Inr [20320, 22909]\<rparr>"

definition blank_provider :: provider where
  "blank_provider = ok_provider\<lparr>chat_stream_res := ([[32], [10]], None)\<rparr>"

definition flaky_provider :: provider where
  "flaky_provider = ok_provider\<lparr>append_text_res := (\<lambda>n t. if n = 0 then Some (ProviderError 3) else None)\<rparr>"

definition full_bridge :: bridge where
  "full_bridge = \<lparr>error = None, stop_evt = False, out_q = replicate 256 (Some [0, 0])\<rparr>"

definition demo_turns :: "turn list" where
  "demo_turns = [\<lparr>aborted = False, polled = Item (Some [1, 2, 3]), send_ok = True\<rparr>,
     \<lparr>aborted = False, polled = Empty False, send_ok = True\<rparr>,
     \<lparr>aborted = True, polled = Item (Some [5, 6]), send_ok = True\<rparr>,
     \<lparr>aborted = False, polled = Item (Some [7, 8]), send_ok = True\<rparr>]"

definition double_rate :: ratecv where
  "double_rate chunk in_sr target_sr st = Inr (chunk @ chunk, (0, 0, 0))"

definition demo_env :: ws_env where
  "demo_env = \<lparr>env_api_key = Some (ascii ''sk-demo''), env_tts_sample_rate = Some 16000,
     env_max_turns = Some 12, env_system_prompt = [], pcm_to_wav = (\<lambda>pcm sr. Inr pcm),
     qwen_asr = (\<lambda>wav. Inr [20320, 22909]), start_bridge = (\<lambda>msgs. Inr 16000),
     env_ratecv = double_rate, turns = demo_turns\<rparr>"

definition listening_conn :: conn where
  "listening_conn = \<lparr>session = \<lparr>session_id = [115], device_id = ascii ''dev'',
       audio_buffer = replicate 1600 0, sample_rate = JInt 16000, state = Listening,
       stop_speaking = False\<rparr>,
     sessions = Map.empty, trace = []\<rparr>"

text \<open>
  The flush rule in the words of the specification (section 4.2), to compare with the loop:
  flush when nothing was flushed yet and the pending text has at least 8 code points, or
  it has at least 24, or it ends with a sentence-terminating punctuation mark in its wide
  or its ASCII form (full stop, exclamation mark, question mark) or with a newline.
\<close>

definition spec_terminators :: "nat list" where
  "spec_terminators = [12290, 65281, 65311, 46, 33, 63, 10]"

definition spec_flush :: "bool \<Rightarrow> ustr \<Rightarrow> bool" where
  "spec_flush flushed_before pend \<longleftrightarrow>
     (\<not> flushed_before \<and> 8 \<le> length pend) \<or> 24 \<le> length pend
     \<or> (pend \<noteq> [] \<and> last pend \<in> set spec_terminators)"

text \<open>A reply of three chunks and the end marker, with no abort during the loop, and the
  environment that delivers it.\<close>

definition stream_turns :: "turn list" where
  "stream_turns = [\<lparr>aborted = False, polled = Item (Some [1, 2]), send_ok = True\<rparr>,
     \<lparr>aborted = False, polled = Item (Some [3, 4]), send_ok = True\<rparr>,
     \<lparr>aborted = False, polled = Item (Some [5, 6]), send_ok = True\<rparr>,
     \<lparr>aborted = False, polled = Item None, send_ok = True\<rparr>]"

definition stream_env :: ws_env where
  "stream_env = demo_env\<lparr>turns := stream_turns\<rparr>"

section \<open>Memory trimming\<close>

lemma trim_session_keep_pos:
  assumes "msgs \<noteq> []" and "1 \<le> keep"
  shows "trim_session msgs keep =
           (if int (length msgs) \<le> 1 + keep then msgs
            else hd msgs # drop (length msgs - nat keep) msgs)
       \<and> int (length (trim_session msgs keep)) \<le> 1 + keep
       \<and> hd (trim_session msgs keep) = hd msgs"
  using assms
  by (cases msgs) (auto simp: trim_session_def slice_from_def nat_diff_distrib nat_add_distrib)

lemma last_trim_session:
  assumes "msgs \<noteq> []" and "1 \<le> keep"
  shows "last (trim_session msgs keep) = last msgs"
proof (cases "int (length msgs) \<le> 1 + keep")
  case True
  then show ?thesis by (simp add: trim_session_def)
next
  case False
  then have lt: "nat keep < length msgs" and pos: "0 < nat keep"
    using assms(2) by auto
  have d: "drop (length msgs - nat keep) msgs \<noteq> []"
    using lt pos by simp
  have "trim_session msgs keep = take 1 msgs @ drop (length msgs - nat keep) msgs"
    using False assms(2) by (simp add: trim_session_def slice_from_def nat_diff_distrib)
  then show ?thesis
    using d by (simp add: last_drop)
qed

text \<open>
  C10. The specification: for every non-empty list and every \<open>keep \<ge> 0\<close>, trimming keeps
  the first message followed by the last \<open>keep\<close> messages, so the result has at most
  \<open>keep + 1\<close> messages. For \<open>keep \<ge> 1\<close> the code does this (\<open>trim_session_keep_pos\<close>). At
  \<open>keep = 0\<close> the slice \<open>msgs[-0:]\<close> is the whole list: a list of two messages grows to
  three, with the system message twice.
\<close>

theorem trim_session_keep_zero:
  "trim_session [Msg System [115], Msg User [117]] 0
     = [Msg System [115], Msg System [115], Msg User [117]]"
  by (simp add: trim_session_def slice_from_def)

section \<open>The flush policy\<close>

lemma endswith_terminators:
  "endswith s terminators \<longleftrightarrow> s \<noteq> [] \<and> last s \<in> {12290, 65281, 65311, 33, 63, 10}"
proof (cases s rule: rev_cases)
  case Nil
  then show ?thesis by (simp add: endswith_def terminators_def)
next
  case (snoc ys y)
  then show ?thesis by (auto simp add: endswith_def terminators_def)
qed

lemma feed_deltas_flush:
  assumes "(\<not> sent_any f \<and> 8 \<le> length (pending f @ delta)) \<or> 24 \<le> length (pending f @ delta)
            \<or> (pending f @ delta \<noteq> [] \<and> last (pending f @ delta) \<in> {12290, 65281, 65311, 33, 63, 10})"
    and "append_text_res p (n_append (client f)) (pending f @ delta) = None"
  shows "feed_deltas p (delta # rest) f =
     feed_deltas p rest
       (f\<lparr>assistant_text_parts := assistant_text_parts f @ [delta], pending := [],
          sent_any := True,
          client := (client f)\<lparr>sent_text := sent_text (client f) @ [pending f @ delta],
                                n_append := Suc (n_append (client f))\<rparr>\<rparr>)"
proof -
  have c: "(\<not> sent_any f \<and> 8 \<le> length (pending f @ delta)) \<or> 24 \<le> length (pending f @ delta)
            \<or> endswith (pending f @ delta) terminators"
    using assms(1) unfolding endswith_terminators by simp
  show ?thesis
    using c assms(2) by (simp add: client_append_def Let_def)
qed

lemma feed_deltas_flush_raises:
  assumes "(\<not> sent_any f \<and> 8 \<le> length (pending f @ delta)) \<or> 24 \<le> length (pending f @ delta)
            \<or> (pending f @ delta \<noteq> [] \<and> last (pending f @ delta) \<in> {12290, 65281, 65311, 33, 63, 10})"
    and "append_text_res p (n_append (client f)) (pending f @ delta) = Some e"
  shows "feed_deltas p (delta # rest) f =
     (Some e, f\<lparr>assistant_text_parts := assistant_text_parts f @ [delta],
                pending := pending f @ delta,
                client := (client f)\<lparr>n_append := Suc (n_append (client f))\<rparr>\<rparr>)"
proof -
  have c: "(\<not> sent_any f \<and> 8 \<le> length (pending f @ delta)) \<or> 24 \<le> length (pending f @ delta)
            \<or> endswith (pending f @ delta) terminators"
    using assms(1) unfolding endswith_terminators by simp
  show ?thesis
    using c assms(2) by (simp add: client_append_def Let_def)
qed

lemma feed_deltas_accumulate:
  assumes "\<not> ((\<not> sent_any f \<and> 8 \<le> length (pending f @ delta)) \<or> 24 \<le> length (pending f @ delta)
            \<or> (pending f @ delta \<noteq> [] \<and> last (pending f @ delta) \<in> {12290, 65281, 65311, 33, 63, 10}))"
  shows "feed_deltas p (delta # rest) f =
     feed_deltas p rest
       (f\<lparr>assistant_text_parts := assistant_text_parts f @ [delta],
          pending := pending f @ delta\<rparr>)"
proof -
  have c: "\<not> ((\<not> sent_any f \<and> 8 \<le> length (pending f @ delta)) \<or> 24 \<le> length (pending f @ delta)
            \<or> endswith (pending f @ delta) terminators)"
    using assms unfolding endswith_terminators by simp
  show ?thesis
    using c by (auto simp add: Let_def)
qed

lemma feed_deltas_short:
  assumes "\<not> sent_any f" and "length (pending f @ concat ds) < 8"
    and "\<forall>d\<in>set ds. d \<noteq> [] \<and> last d \<notin> {12290, 65281, 65311, 33, 63, 10}"
  shows "feed_deltas p ds f =
     (None, f\<lparr>assistant_text_parts := assistant_text_parts f @ ds,
              pending := pending f @ concat ds\<rparr>)"
  using assms
proof (induction ds arbitrary: f)
  case Nil
  then show ?case by simp
next
  case (Cons d ds)
  have d: "d \<noteq> []" "last d \<notin> {12290, 65281, 65311, 33, 63, 10}"
    using Cons.prems(3) by auto
  have len: "length (pending f @ d) < 8"
    using Cons.prems(2) by simp
  have nc: "\<not> ((\<not> sent_any f \<and> 8 \<le> length (pending f @ d)) \<or> 24 \<le> length (pending f @ d)
            \<or> (pending f @ d \<noteq> [] \<and> last (pending f @ d) \<in> {12290, 65281, 65311, 33, 63, 10}))"
    using d len by simp
  let ?f1 = "f\<lparr>assistant_text_parts := assistant_text_parts f @ [d], pending := pending f @ d\<rparr>"
  have "feed_deltas p ds ?f1 =
     (None, ?f1\<lparr>assistant_text_parts := assistant_text_parts ?f1 @ ds,
              pending := pending ?f1 @ concat ds\<rparr>)"
    using Cons.prems by (intro Cons.IH) simp_all
  then show ?case
    unfolding feed_deltas_accumulate [OF nc] by simp
qed

text \<open>
  A run of the policy: eight fragments of one letter each give one flush, after the eighth,
  of all eight letters.
\<close>

lemma first_flush_after_eight:
  "feed_deltas ok_provider [[97], [98], [99], [100], [101], [102], [103], [104]]
     \<lparr>assistant_text_parts = [], pending = [], sent_any = False, client = new_client\<rparr>
   = (None, \<lparr>assistant_text_parts = [[97], [98], [99], [100], [101], [102], [103], [104]],
             pending = [], sent_any = True,
             client = \<lparr>sent_text = [[97, 98, 99, 100, 101, 102, 103, 104]], n_append = 1,
                        finished = False, is_closed = False\<rparr>\<rparr>)"
  by (simp add: ok_provider_def new_client_def client_append_def endswith_def terminators_def)

text \<open>
  C2, as the specification states it: the pending text is flushed when it ends with a
  sentence-terminating punctuation mark, wide or ASCII, or a newline (\<open>spec_flush\<close>). The
  tuple of line 268 holds the wide full stop, exclamation mark and question mark, the ASCII
  exclamation mark and question mark, and the newline; the ASCII full stop is not in it.
  The reply \<open>Hi.\<close> in one fragment ends with the ASCII full stop, so the specification's
  rule flushes it, and the loop leaves it pending and calls \<open>append_text\<close> not at all.
\<close>

theorem full_stop_is_not_flushed:
  "spec_flush False [72, 105, 46]
   \<and> feed_deltas ok_provider [[72, 105, 46]]
        \<lparr>assistant_text_parts = [], pending = [], sent_any = False, client = new_client\<rparr>
      = (None, \<lparr>assistant_text_parts = [[72, 105, 46]], pending = [72, 105, 46],
                sent_any = False, client = new_client\<rparr>)"
  by (simp add: spec_flush_def spec_terminators_def endswith_def terminators_def)

text \<open>
  C2, amended: the terminators are the six marks of line 268. The loop over no fragment
  changes nothing. After a fragment the pending text is flushed exactly when nothing was
  flushed yet and it has at least 8 code points, or it has at least 24 code points, or it
  ends with one of the six marks. A flush hands the pending text to \<open>append_text\<close>; when
  that returns, the pending buffer is empty and the text is the last one the session got;
  when it raises, the loop is left with that exception. Without a flush the text is only
  accumulated and \<open>append_text\<close> is not called. So any number of non-empty fragments that
  end with no mark and stay below 8 code points in all, with nothing flushed before, are
  accumulated and nothing is flushed.
\<close>

theorem flush_policy:
  "feed_deltas p [] f = (None, f)
   \<and> (let pend = pending f @ delta;
           parts = assistant_text_parts f @ [delta];
           flush = ((\<not> sent_any f \<and> 8 \<le> length pend) \<or> 24 \<le> length pend
                    \<or> (pend \<noteq> [] \<and> last pend \<in> {12290, 65281, 65311, 33, 63, 10}));
           flushed = f\<lparr>assistant_text_parts := parts, pending := [], sent_any := True,
                        client := (client f)\<lparr>sent_text := sent_text (client f) @ [pend],
                                              n_append := Suc (n_append (client f))\<rparr>\<rparr>;
           kept = f\<lparr>assistant_text_parts := parts, pending := pend\<rparr>
       in (flush \<and> append_text_res p (n_append (client f)) pend = None
             \<longrightarrow> feed_deltas p (delta # rest) f = feed_deltas p rest flushed
               \<and> feed_deltas p [delta] f = (None, flushed))
        \<and> (\<forall>e. flush \<and> append_text_res p (n_append (client f)) pend = Some e
             \<longrightarrow> feed_deltas p (delta # rest) f
                 = (Some e, kept\<lparr>client := (client f)\<lparr>n_append := Suc (n_append (client f))\<rparr>\<rparr>))
        \<and> (\<not> flush
             \<longrightarrow> feed_deltas p (delta # rest) f = feed_deltas p rest kept
               \<and> feed_deltas p [delta] f = (None, kept)))
   \<and> (\<not> sent_any f \<and> length (pending f @ concat ds) < 8
        \<and> (\<forall>d\<in>set ds. d \<noteq> [] \<and> last d \<notin> {12290, 65281, 65311, 33, 63, 10})
      \<longrightarrow> feed_deltas p ds f =
            (None, f\<lparr>assistant_text_parts := assistant_text_parts f @ ds,
                     pending := pending f @ concat ds\<rparr>))"
proof (intro conjI)
  show "feed_deltas p [] f = (None, f)" by simp
next
  show "let pend = pending f @ delta;
           parts = assistant_text_parts f @ [delta];
           flush = ((\<not> sent_any f \<and> 8 \<le> length pend) \<or> 24 \<le> length pend
                    \<or> (pend \<noteq> [] \<and> last pend \<in> {12290, 65281, 65311, 33, 63, 10}));
           flushed = f\<lparr>assistant_text_parts := parts, pending := [], sent_any := True,
                        client := (client f)\<lparr>sent_text := sent_text (client f) @ [pend],
                                              n_append := Suc (n_append (client f))\<rparr>\<rparr>;
           kept = f\<lparr>assistant_text_parts := parts, pending := pend\<rparr>
       in (flush \<and> append_text_res p (n_append (client f)) pend = None
             \<longrightarrow> feed_deltas p (delta # rest) f = feed_deltas p rest flushed
               \<and> feed_deltas p [delta] f = (None, flushed))
        \<and> (\<forall>e. flush \<and> append_text_res p (n_append (client f)) pend = Some e
             \<longrightarrow> feed_deltas p (delta # rest) f
                 = (Some e, kept\<lparr>client := (client f)\<lparr>n_append := Suc (n_append (client f))\<rparr>\<rparr>))
        \<and> (\<not> flush
             \<longrightarrow> feed_deltas p (delta # rest) f = feed_deltas p rest kept
               \<and> feed_deltas p [delta] f = (None, kept))"
  proof -
    let ?pend = "pending f @ delta"
    let ?flush = "(\<not> sent_any f \<and> 8 \<le> length ?pend) \<or> 24 \<le> length ?pend
                    \<or> (?pend \<noteq> [] \<and> last ?pend \<in> {12290, 65281, 65311, 33, 63, 10})"
    let ?flushed = "f\<lparr>assistant_text_parts := assistant_text_parts f @ [delta], pending := [],
                        sent_any := True,
                        client := (client f)\<lparr>sent_text := sent_text (client f) @ [?pend],
                                              n_append := Suc (n_append (client f))\<rparr>\<rparr>"
    let ?kept = "f\<lparr>assistant_text_parts := assistant_text_parts f @ [delta], pending := ?pend\<rparr>"
    have a: "feed_deltas p (delta # rest) f = feed_deltas p rest ?flushed"
      and b: "feed_deltas p [delta] f = (None, ?flushed)"
      if "?flush" "append_text_res p (n_append (client f)) ?pend = None"
      using feed_deltas_flush [OF that, of rest] feed_deltas_flush [OF that, of "[]"]
      by simp_all
    have c: "feed_deltas p (delta # rest) f = feed_deltas p rest ?kept"
      and d: "feed_deltas p [delta] f = (None, ?kept)"
      if "\<not> ?flush"
      using feed_deltas_accumulate [OF that, of p rest] feed_deltas_accumulate [OF that, of p "[]"]
      by simp_all
    have r: "feed_deltas p (delta # rest) f
                 = (Some e, ?kept\<lparr>client := (client f)\<lparr>n_append := Suc (n_append (client f))\<rparr>\<rparr>)"
      if "?flush" "append_text_res p (n_append (client f)) ?pend = Some e" for e
      using feed_deltas_flush_raises [OF that, of rest] by simp
    show ?thesis
      unfolding Let_def using a b c d r by blast
  qed
next
  show "\<not> sent_any f \<and> length (pending f @ concat ds) < 8
        \<and> (\<forall>d\<in>set ds. d \<noteq> [] \<and> last d \<notin> {12290, 65281, 65311, 33, 63, 10})
      \<longrightarrow> feed_deltas p ds f =
            (None, f\<lparr>assistant_text_parts := assistant_text_parts f @ ds,
                     pending := pending f @ concat ds\<rparr>)"
    using feed_deltas_short [of f ds p] by blast
qed

theorem flush_policy_witness:
  "feed_deltas ok_provider [[104]]
     \<lparr>assistant_text_parts = [[97, 98, 99, 100, 101, 102, 103]],
      pending = [97, 98, 99, 100, 101, 102, 103], sent_any = False, client = new_client\<rparr>
   = (None, \<lparr>assistant_text_parts = [[97, 98, 99, 100, 101, 102, 103], [104]],
             pending = [], sent_any = True,
             client = \<lparr>sent_text = [[97, 98, 99, 100, 101, 102, 103, 104]], n_append = 1,
                        finished = False, is_closed = False\<rparr>\<rparr>)
   \<and> feed_deltas ok_provider [[97], [98, 99]]
        \<lparr>assistant_text_parts = [], pending = [], sent_any = False, client = new_client\<rparr>
      = (None, \<lparr>assistant_text_parts = [[97], [98, 99]], pending = [97, 98, 99],
                sent_any = False, client = new_client\<rparr>)"
proof -
  let ?f = "\<lparr>assistant_text_parts = [[97, 98, 99, 100, 101, 102, 103]],
      pending = [97, 98, 99, 100, 101, 102, 103], sent_any = False, client = new_client\<rparr>"
  let ?g = "\<lparr>assistant_text_parts = [], pending = [], sent_any = False, client = new_client\<rparr>"
  have a: "feed_deltas ok_provider [[104]] ?f
   = (None, \<lparr>assistant_text_parts = [[97, 98, 99, 100, 101, 102, 103], [104]],
             pending = [], sent_any = True,
             client = \<lparr>sent_text = [[97, 98, 99, 100, 101, 102, 103, 104]], n_append = 1,
                        finished = False, is_closed = False\<rparr>\<rparr>)"
    using flush_policy [of ok_provider ?f "[104]" "[]" "[]"]
    by (simp add: Let_def ok_provider_def new_client_def)
  have b: "feed_deltas ok_provider [[97], [98, 99]] ?g
      = (None, \<lparr>assistant_text_parts = [[97], [98, 99]], pending = [97, 98, 99],
                sent_any = False, client = new_client\<rparr>)"
    using flush_policy [of ok_provider ?g "[]" "[]" "[[97], [98, 99]]"]
    by simp
  show ?thesis using a b by simp
qed

section \<open>The worker: fallback sentence, error slot and end marker\<close>

lemma feed_deltas_all_ok:
  assumes "\<forall>n t. append_text_res p n t = None"
  shows "fst (feed_deltas p ds f) = None \<and>
         assistant_text_parts (snd (feed_deltas p ds f)) = assistant_text_parts f @ ds"
  using assms
proof (induction ds arbitrary: f)
  case Nil
  then show ?case by simp
next
  case (Cons d ds)
  then show ?case by (simp add: Let_def client_append_def)
qed

lemma client_append_ok:
  "append_text_res p (n_append c) t = None \<Longrightarrow>
   client_append p c t = (None, c\<lparr>sent_text := sent_text c @ [t], n_append := Suc (n_append c)\<rparr>)"
  by (simp add: client_append_def)

lemma fallback_apology_body:
  assumes "new_client_res p = None" and "connect_res p = None"
    and "update_session_res p = None"
    and ok: "\<forall>n t. append_text_res p n t = None"
    and "snd (chat_stream_res p) = None"
    and blank: "strip (concat (fst (chat_stream_res p))) = []"
  shows "\<exists>c. run_body p keep msgs =
            (finish_res p, Some c, trim_session (msgs @ [Msg Assistant fallback_text]) keep)
          \<and> sent_text c \<noteq> [] \<and> last (sent_text c) = fallback_text"
proof -
  let ?f0 = "\<lparr>assistant_text_parts = [], pending = [], sent_any = False, client = new_client\<rparr>"
  obtain f where fd: "feed_deltas p (fst (chat_stream_res p)) ?f0 = (None, f)"
    and parts: "assistant_text_parts f = fst (chat_stream_res p)"
    using feed_deltas_all_ok [OF ok, of "fst (chat_stream_res p)" ?f0]
    by (cases "feed_deltas p (fst (chat_stream_res p)) ?f0") auto
  have fr: "feed_reply p ?f0 = (None, f)"
    using fd assms(5) by (simp add: feed_reply_def)
  define c1 where "c1 = (if pending f \<noteq> []
      then (client f)\<lparr>sent_text := sent_text (client f) @ [pending f],
                       n_append := Suc (n_append (client f))\<rparr>
      else client f)"
  have c1: "(if pending f \<noteq> [] then client_append p (client f) (pending f)
            else (None, client f)) = (None, c1)"
    using ok by (simp add: c1_def client_append_def)
  have c2: "client_append p c1 fallback_text =
      (None, c1\<lparr>sent_text := sent_text c1 @ [fallback_text], n_append := Suc (n_append c1)\<rparr>)"
    using ok by (simp add: client_append_ok)
  have sr: "send_reply p = (None, c1\<lparr>sent_text := sent_text c1 @ [fallback_text],
                n_append := Suc (n_append c1)\<rparr>, fallback_text)"
    unfolding send_reply_def fr using c1 c2 blank parts by (simp add: Let_def)
  show ?thesis
    using assms(1-3) sr
    by (cases "finish_res p") (simp_all add: run_body_def Let_def)
qed

text \<open>
  C6. When the reply stream ends normally and the fragments it yielded are empty after
  stripping whitespace, the worker hands the fixed fallback sentence to \<open>append_text\<close> (it is
  the last text the session received) and appends it as the assistant turn to the message
  list, which is then trimmed; for \<open>keep \<ge> 1\<close> it is the last message of the list. The
  hypotheses are that the session was set up and that \<open>append_text\<close> returns.
\<close>

theorem fallback_apology_sent_and_recorded:
  assumes "new_client_res p = None" and "connect_res p = None"
    and "update_session_res p = None"
    and "\<forall>n t. append_text_res p n t = None"
    and "snd (chat_stream_res p) = None"
    and "strip (concat (fst (chat_stream_res p))) = []"
  shows "fst (run p keep msgs b) = trim_session (msgs @ [Msg Assistant fallback_text]) keep
     \<and> (\<exists>c. fst (snd (run p keep msgs b)) = Some c \<and> sent_text c \<noteq> []
              \<and> last (sent_text c) = fallback_text)
     \<and> (1 \<le> keep \<longrightarrow> last (fst (run p keep msgs b)) = Msg Assistant fallback_text)"
proof -
  obtain c where body: "run_body p keep msgs =
      (finish_res p, Some c, trim_session (msgs @ [Msg Assistant fallback_text]) keep)"
    and c: "sent_text c \<noteq> []" "last (sent_text c) = fallback_text"
    using fallback_apology_body [OF assms, of keep msgs] by blast
  have m: "fst (run p keep msgs b) = trim_session (msgs @ [Msg Assistant fallback_text]) keep"
    using body by (simp add: run_def Let_def)
  have cl: "\<exists>c'. fst (snd (run p keep msgs b)) = Some c' \<and> sent_text c' \<noteq> []
              \<and> last (sent_text c') = fallback_text"
    using body c by (cases "close_res p") (simp_all add: run_def Let_def)
  have l: "1 \<le> keep \<Longrightarrow> last (fst (run p keep msgs b)) = Msg Assistant fallback_text"
    unfolding m using last_trim_session [of "msgs @ [Msg Assistant fallback_text]" keep] by simp
  show ?thesis using m cl l by blast
qed

theorem fallback_apology_sent_and_recorded_witness:
  "fst (run blank_provider 12 [Msg System [], Msg User [104, 105]]
         \<lparr>error = None, stop_evt = False, out_q = []\<rparr>)
     = [Msg System [], Msg User [104, 105], Msg Assistant fallback_text]
   \<and> (\<exists>c. fst (snd (run blank_provider 12 [Msg System [], Msg User [104, 105]]
         \<lparr>error = None, stop_evt = False, out_q = []\<rparr>)) = Some c \<and> sent_text c \<noteq> []
         \<and> last (sent_text c) = fallback_text)"
proof -
  have h: "new_client_res blank_provider = None" "connect_res blank_provider = None"
    "update_session_res blank_provider = None"
    "\<forall>n t. append_text_res blank_provider n t = None"
    "snd (chat_stream_res blank_provider) = None"
    "strip (concat (fst (chat_stream_res blank_provider))) = []"
    by (simp_all add: blank_provider_def ok_provider_def strip_def isspace_def)
  show ?thesis
    using fallback_apology_sent_and_recorded [OF h, of 12 "[Msg System [], Msg User [104, 105]]"
        "\<lparr>error = None, stop_evt = False, out_q = []\<rparr>"]
    by (simp add: trim_session_def)
qed

lemma run_captures:
  "fst (run_body p keep msgs) = Some e \<Longrightarrow>
   error (snd (snd (run p keep msgs b))) = Some e \<and> stop_evt (snd (snd (run p keep msgs b)))"
  by (cases "run_body p keep msgs") (simp add: run_def Let_def split: sum.splits)

lemma run_no_exception:
  "fst (run_body p keep msgs) = None \<Longrightarrow>
   error (snd (snd (run p keep msgs b))) = error b \<and>
   stop_evt (snd (snd (run p keep msgs b))) = stop_evt b"
  by (cases "run_body p keep msgs") (simp add: run_def Let_def split: sum.splits)

lemma run_out_q:
  "out_q (snd (snd (run p keep msgs b))) =
     (if length (out_q b) < 256 then out_q b @ [None] else out_q b)"
  by (cases "run_body p keep msgs")
     (simp add: run_def Let_def queue_put_def maxsize_def split: option.splits)

lemma body_new_client: "new_client_res p = Some e \<Longrightarrow> fst (run_body p keep msgs) = Some e"
  by (simp add: run_body_def)

lemma body_connect:
  "new_client_res p = None \<Longrightarrow> connect_res p = Some e \<Longrightarrow> fst (run_body p keep msgs) = Some e"
  by (simp add: run_body_def)

lemma body_update:
  "new_client_res p = None \<Longrightarrow> connect_res p = None \<Longrightarrow> update_session_res p = Some e
   \<Longrightarrow> fst (run_body p keep msgs) = Some e"
  by (simp add: run_body_def)

lemma body_finish:
  "new_client_res p = None \<Longrightarrow> connect_res p = None \<Longrightarrow> update_session_res p = None
   \<Longrightarrow> fst (send_reply p) = None \<Longrightarrow> finish_res p = Some e
   \<Longrightarrow> fst (run_body p keep msgs) = Some e"
  by (cases "send_reply p") (simp add: run_body_def Let_def)

lemma body_send_reply:
  "new_client_res p = None \<Longrightarrow> connect_res p = None \<Longrightarrow> update_session_res p = None
   \<Longrightarrow> fst (send_reply p) = Some e \<Longrightarrow> fst (run_body p keep msgs) = Some e"
  by (cases "send_reply p") (simp add: run_body_def Let_def)

lemma send_reply_append_fails:
  assumes "feed_reply p \<lparr>assistant_text_parts = [], pending = [], sent_any = False,
                          client = new_client\<rparr> = (None, f)"
    and "pending f \<noteq> []"
    and "append_text_res p (n_append (client f)) (pending f) = Some e"
  shows "fst (send_reply p) = Some e"
  using assms by (simp add: send_reply_def client_append_def)

lemma send_reply_fallback_fails:
  assumes "fst (feed_deltas p (fst (chat_stream_res p))
              \<lparr>assistant_text_parts = [], pending = [], sent_any = False,
               client = new_client\<rparr>) \<noteq> None \<or> snd (chat_stream_res p) \<noteq> None"
    and "chat_res p = Inl e"
  shows "fst (send_reply p) = Some e"
proof -
  let ?f0 = "\<lparr>assistant_text_parts = [], pending = [], sent_any = False, client = new_client\<rparr>"
  obtain r f where fd: "feed_deltas p (fst (chat_stream_res p)) ?f0 = (r, f)"
    by (cases "feed_deltas p (fst (chat_stream_res p)) ?f0")
  have "feed_reply p ?f0 = (Some e, f)"
    using assms fd
    by (cases r; cases "snd (chat_stream_res p)") (simp_all add: feed_reply_def chat_fallback_def)
  then show ?thesis
    by (simp add: send_reply_def)
qed

lemma send_reply_apology_fails:
  assumes "feed_reply p \<lparr>assistant_text_parts = [], pending = [], sent_any = False,
                          client = new_client\<rparr> = (None, f)"
    and "(if pending f \<noteq> [] then client_append p (client f) (pending f)
          else (None, client f)) = (None, c1)"
    and "strip (concat (assistant_text_parts f)) = []"
    and "append_text_res p (n_append c1) fallback_text = Some e"
  shows "fst (send_reply p) = Some e"
  using assms by (simp add: send_reply_def client_append_def Let_def)

text \<open>
  C3, as the specification states it: every run of the worker ends with the end marker on
  the channel. It does not when the channel is full: with 256 chunks queued and a failing
  \<open>finish\<close>, the error is captured and the event is set, but \<open>put(None, timeout=1)\<close> raises
  \<open>Full\<close>, the handler of line 303 swallows it, and the channel holds no end marker.
\<close>

theorem end_marker_missing_when_full:
  "error (snd (snd (run (ok_provider\<lparr>finish_res := Some (ProviderError 7)\<rparr>) 12
                      [Msg System []] full_bridge))) = Some (ProviderError 7) \<and>
   stop_evt (snd (snd (run (ok_provider\<lparr>finish_res := Some (ProviderError 7)\<rparr>) 12
                      [Msg System []] full_bridge))) \<and>
   None \<notin> set (out_q (snd (snd (run (ok_provider\<lparr>finish_res := Some (ProviderError 7)\<rparr>) 12
                      [Msg System []] full_bridge))))"
  by (simp add: run_def run_body_def ok_provider_def full_bridge_def queue_put_def maxsize_def
        send_reply_def feed_reply_def Let_def client_append_def new_client_def endswith_def
        terminators_def strip_def isspace_def)

text \<open>
  C3, amended. An exception that leaves the \<open>try\<close> block is stored in the error slot and
  the event is set, and without an exception the slot and the event are left as they are.
  An exception leaves the \<open>try\<close> block when the client cannot be made, when \<open>connect\<close>,
  \<open>update_session\<close> or \<open>finish\<close> raises, and when sending the reply raises; sending the
  reply raises when the reply loop was left by an exception and the blocking reply call of
  line 276 raises, when the \<open>append_text\<close> of the text still pending after the loop (line
  280) raises, and when the \<open>append_text\<close> of the fallback sentence (line 285) raises. The
  end marker is put on the channel exactly when the channel holds fewer than 256 items at
  the final \<open>put\<close>.
\<close>

theorem worker_failure_and_end_marker:
  "(let b' = snd (snd (run p keep msgs b));
        raised = fst (run_body p keep msgs);
        set_up = (new_client_res p = None \<and> connect_res p = None \<and> update_session_res p = None);
        f0 = \<lparr>assistant_text_parts = [], pending = [], sent_any = False, client = new_client\<rparr>
    in (\<forall>e. raised = Some e \<longrightarrow> error b' = Some e \<and> stop_evt b')
     \<and> (raised = None \<longrightarrow> error b' = error b \<and> stop_evt b' = stop_evt b)
     \<and> (\<forall>e. new_client_res p = Some e \<longrightarrow> raised = Some e)
     \<and> (\<forall>e. new_client_res p = None \<and> connect_res p = Some e \<longrightarrow> raised = Some e)
     \<and> (\<forall>e. new_client_res p = None \<and> connect_res p = None \<and> update_session_res p = Some e
            \<longrightarrow> raised = Some e)
     \<and> (\<forall>e. set_up \<and> fst (send_reply p) = Some e \<longrightarrow> raised = Some e)
     \<and> (\<forall>e. (fst (feed_deltas p (fst (chat_stream_res p)) f0) \<noteq> None
              \<or> snd (chat_stream_res p) \<noteq> None) \<and> chat_res p = Inl e
            \<longrightarrow> fst (send_reply p) = Some e)
     \<and> (\<forall>e f. feed_reply p f0 = (None, f) \<and> pending f \<noteq> []
              \<and> append_text_res p (n_append (client f)) (pending f) = Some e
            \<longrightarrow> fst (send_reply p) = Some e)
     \<and> (\<forall>e f c1. feed_reply p f0 = (None, f)
              \<and> (if pending f \<noteq> [] then client_append p (client f) (pending f)
                  else (None, client f)) = (None, c1)
              \<and> strip (concat (assistant_text_parts f)) = []
              \<and> append_text_res p (n_append c1) fallback_text = Some e
            \<longrightarrow> fst (send_reply p) = Some e)
     \<and> (\<forall>e. set_up \<and> fst (send_reply p) = None \<and> finish_res p = Some e \<longrightarrow> raised = Some e)
     \<and> out_q b' = (if length (out_q b) < 256 then out_q b @ [None] else out_q b))"
  unfolding Let_def
proof (intro conjI allI impI)
  fix e
  assume "fst (run_body p keep msgs) = Some e"
  then have c: "error (snd (snd (run p keep msgs b))) = Some e \<and> stop_evt (snd (snd (run p keep msgs b)))"
    by (rule run_captures)
  show "error (snd (snd (run p keep msgs b))) = Some e" using c by simp
  show "stop_evt (snd (snd (run p keep msgs b)))" using c by simp
next
  assume "fst (run_body p keep msgs) = None"
  then have c: "error (snd (snd (run p keep msgs b))) = error b
         \<and> stop_evt (snd (snd (run p keep msgs b))) = stop_evt b"
    by (rule run_no_exception)
  show "error (snd (snd (run p keep msgs b))) = error b" using c by simp
  show "stop_evt (snd (snd (run p keep msgs b))) = stop_evt b" using c by simp
next
  fix e
  assume "new_client_res p = Some e"
  then show "fst (run_body p keep msgs) = Some e"
    by (rule body_new_client)
next
  fix e
  assume "new_client_res p = None \<and> connect_res p = Some e"
  then show "fst (run_body p keep msgs) = Some e"
    using body_connect by blast
next
  fix e
  assume "new_client_res p = None \<and> connect_res p = None \<and> update_session_res p = Some e"
  then show "fst (run_body p keep msgs) = Some e"
    using body_update by blast
next
  fix e
  assume "(new_client_res p = None \<and> connect_res p = None \<and> update_session_res p = None)
          \<and> fst (send_reply p) = Some e"
  then show "fst (run_body p keep msgs) = Some e"
    using body_send_reply by blast
next
  fix e
  assume "(fst (feed_deltas p (fst (chat_stream_res p))
              \<lparr>assistant_text_parts = [], pending = [], sent_any = False,
               client = new_client\<rparr>) \<noteq> None \<or> snd (chat_stream_res p) \<noteq> None)
          \<and> chat_res p = Inl e"
  then show "fst (send_reply p) = Some e"
    using send_reply_fallback_fails by blast
next
  fix e f
  assume "feed_reply p \<lparr>assistant_text_parts = [], pending = [], sent_any = False,
                          client = new_client\<rparr> = (None, f) \<and> pending f \<noteq> []
              \<and> append_text_res p (n_append (client f)) (pending f) = Some e"
  then show "fst (send_reply p) = Some e"
    using send_reply_append_fails by blast
next
  fix e f c1
  assume "feed_reply p \<lparr>assistant_text_parts = [], pending = [], sent_any = False,
                          client = new_client\<rparr> = (None, f)
              \<and> (if pending f \<noteq> [] then client_append p (client f) (pending f)
                  else (None, client f)) = (None, c1)
              \<and> strip (concat (assistant_text_parts f)) = []
              \<and> append_text_res p (n_append c1) fallback_text = Some e"
  then show "fst (send_reply p) = Some e"
    using send_reply_apology_fails by blast
next
  fix e
  assume "(new_client_res p = None \<and> connect_res p = None \<and> update_session_res p = None)
          \<and> fst (send_reply p) = None \<and> finish_res p = Some e"
  then show "fst (run_body p keep msgs) = Some e"
    using body_finish by blast
next
  show "out_q (snd (snd (run p keep msgs b)))
          = (if length (out_q b) < 256 then out_q b @ [None] else out_q b)"
    by (rule run_out_q)
qed

theorem worker_failure_and_end_marker_witness:
  "error (snd (snd (run (ok_provider\<lparr>finish_res := Some (ProviderError 7)\<rparr>) 12
        [Msg System []] \<lparr>error = None, stop_evt = False, out_q = [Some [0, 0]]\<rparr>)))
     = Some (ProviderError 7) \<and>
   stop_evt (snd (snd (run (ok_provider\<lparr>finish_res := Some (ProviderError 7)\<rparr>) 12
        [Msg System []] \<lparr>error = None, stop_evt = False, out_q = [Some [0, 0]]\<rparr>))) \<and>
   out_q (snd (snd (run (ok_provider\<lparr>finish_res := Some (ProviderError 7)\<rparr>) 12
        [Msg System []] \<lparr>error = None, stop_evt = False, out_q = [Some [0, 0]]\<rparr>)))
     = [Some [0, 0], None]"
proof -
  let ?p = "ok_provider\<lparr>finish_res := Some (ProviderError 7)\<rparr>"
  have ok: "(new_client_res ?p = None \<and> connect_res ?p = None \<and> update_session_res ?p = None)
         \<and> fst (send_reply ?p) = None \<and> finish_res ?p = Some (ProviderError 7)"
    by (simp add: ok_provider_def send_reply_def feed_reply_def Let_def client_append_def
          new_client_def endswith_def terminators_def strip_def isspace_def)
  have len: "length [Some [0, 0 :: 8 word]] < 256" by simp
  show ?thesis
    using ok len worker_failure_and_end_marker [of ?p 12 "[Msg System []]"
        "\<lparr>error = None, stop_evt = False, out_q = [Some [0, 0]]\<rparr>", unfolded Let_def]
    by (metis append_Cons append_Nil bridge.select_convs(3))
qed

text \<open>
  An \<open>append_text\<close> that raises inside the reply loop is caught by the loop's own handler
  (line 273), not by the worker's: when the blocking reply call and the later calls
  succeed, the error slot stays empty.
\<close>

lemma append_failure_in_loop_not_captured:
  "fst (feed_deltas flaky_provider (fst (chat_stream_res flaky_provider))
          \<lparr>assistant_text_parts = [], pending = [], sent_any = False, client = new_client\<rparr>)
     = Some (ProviderError 3) \<and>
   fst (run_body flaky_provider 12 [Msg System []]) = None \<and>
   error (snd (snd (run flaky_provider 12 [Msg System []]
                      \<lparr>error = None, stop_evt = False, out_q = []\<rparr>))) = None"
  by (simp add: flaky_provider_def ok_provider_def run_def run_body_def send_reply_def
        feed_reply_def chat_fallback_def Let_def client_append_def new_client_def endswith_def
        terminators_def strip_def isspace_def queue_put_def maxsize_def)

section \<open>The consumer loops\<close>





lemma filter_nonempty_concat: "concat (filter (\<lambda>c. c \<noteq> []) xs) = concat xs"
  by (induction xs) simp_all







lemma iter_pcm_same_rate_prefix:
  "iter_pcm rc sr sr (map Some chunks @ rest) st =
     (case iter_pcm rc sr sr rest st of
        (ys, s, e) \<Rightarrow>
          (filter (\<lambda>c. c \<noteq> [])
             (map (\<lambda>c. if length c mod 2 = 1 then butlast c else c) chunks) @ ys, s, e))"
  by (induction chunks) (simp_all add: Let_def split: prod.split)

text \<open>
  C7. With equal source and target rate \<open>_iter_pcm\<close> never converts: whatever
  \<open>audioop.ratecv\<close> is, the chunks it yields are the chunks of the queue, trimmed to even
  length, without the empty ones, and the resample state at the end is the state at the
  start. So when every chunk has even length, every non-empty chunk is yielded unchanged
  and in order, and the bytes of the stream are the bytes of the chunks.
\<close>

theorem same_rate_is_identity:
  "iter_pcm rc sr sr (map Some chunks @ None # q) st =
     (filter (\<lambda>c. c \<noteq> []) (map (\<lambda>c. if odd (length c) then butlast c else c) chunks),
      st, Exited)
   \<and> iter_pcm rc sr sr (map Some chunks) st =
     (filter (\<lambda>c. c \<noteq> []) (map (\<lambda>c. if odd (length c) then butlast c else c) chunks),
      st, Waiting)
   \<and> ((\<forall>c\<in>set chunks. even (length c)) \<longrightarrow>
        fst (iter_pcm rc sr sr (map Some chunks @ None # q) st) = filter (\<lambda>c. c \<noteq> []) chunks
      \<and> concat (fst (iter_pcm rc sr sr (map Some chunks @ None # q) st)) = concat chunks)"
proof -
  have o: "(\<lambda>c::bytes. if odd (length c) then butlast c else c)
         = (\<lambda>c. if length c mod 2 = 1 then butlast c else c)"
    by (simp add: odd_iff_mod_2_eq_one)
  have a: "iter_pcm rc sr sr (map Some chunks @ None # q) st =
     (filter (\<lambda>c. c \<noteq> []) (map (\<lambda>c. if odd (length c) then butlast c else c) chunks),
      st, Exited)"
    unfolding o iter_pcm_same_rate_prefix by simp
  have b: "iter_pcm rc sr sr (map Some chunks) st =
     (filter (\<lambda>c. c \<noteq> []) (map (\<lambda>c. if odd (length c) then butlast c else c) chunks),
      st, Waiting)"
    unfolding o using iter_pcm_same_rate_prefix [of rc sr chunks "[]" st] by simp
  have c: "fst (iter_pcm rc sr sr (map Some chunks @ None # q) st) = filter (\<lambda>c. c \<noteq> []) chunks
      \<and> concat (fst (iter_pcm rc sr sr (map Some chunks @ None # q) st)) = concat chunks"
    if "\<forall>c\<in>set chunks. even (length c)"
  proof -
    have "map (\<lambda>c. if odd (length c) then butlast c else c) chunks = chunks"
      using that by (induction chunks) auto
    then show ?thesis
      unfolding a by (simp add: filter_nonempty_concat)
  qed
  show ?thesis using a b c by blast
qed

theorem same_rate_is_identity_witness:
  "iter_pcm double_rate 16000 16000 [Some [1, 2], Some [3, 4, 5, 6], None] None
     = ([[1, 2], [3, 4, 5, 6]], None, Exited)"
  using same_rate_is_identity [of double_rate 16000 "[[1, 2], [3, 4, 5, 6]]" "[]" None]
  by simp

text \<open>
  A chunk of no bytes is skipped by the guard of line 668, at any rates: it appears in the
  output neither as a chunk nor as bytes.
\<close>

lemma empty_chunk_is_skipped:
  "iter_pcm rc t i (Some [] # q) st = iter_pcm rc t i q st"
  by simp

lemma ws_forward_stop:
  "stop \<or> aborted u \<Longrightarrow> ws_forward rc t i (u # us) stop st = ([], True, st, Exited)"
  by (auto simp: Let_def)

lemma ws_forward_empty:
  "\<not> stop \<Longrightarrow> \<not> aborted u \<Longrightarrow> polled u = Empty s \<Longrightarrow>
   ws_forward rc t i (u # us) stop st =
     (if s then ([], False, st, Exited) else ws_forward rc t i us False st)"
  by (simp add: Let_def)

lemma ws_forward_end_marker:
  "\<not> stop \<Longrightarrow> \<not> aborted u \<Longrightarrow> polled u = Item None \<Longrightarrow>
   ws_forward rc t i (u # us) stop st = ([], False, st, Exited)"
  by (simp add: Let_def)

lemma ws_forward_skip:
  assumes "\<not> stop" and "\<not> aborted u" and "polled u = Item (Some chunk)"
    and "(if length chunk mod 2 = 1 then butlast chunk else chunk) = []"
  shows "ws_forward rc t i (u # us) stop st = ws_forward rc t i us False st"
  using assms by (simp add: Let_def del: One_nat_def butlast.simps length_butlast)

lemma ws_forward_convert:
  assumes "\<not> stop" and "\<not> aborted u" and "polled u = Item (Some chunk)"
    and "c1 = (if length chunk mod 2 = 1 then butlast chunk else chunk)"
    and "c1 \<noteq> []" and "t \<noteq> 0 \<and> i \<noteq> 0 \<and> t \<noteq> i"
  shows "ws_forward rc t i (u # us) stop st =
     (case rc c1 i t st of
        Inl e \<Rightarrow> ([], False, st, Raised e)
      | Inr (chunk2, state') \<Rightarrow>
          if chunk2 = [] then ws_forward rc t i us False (Some state')
          else if send_ok u
          then (case ws_forward rc t i us False (Some state') of
                  (ys, sp, st, e) \<Rightarrow> (chunk2 # ys, sp, st, e))
          else ([], False, Some state', Exited))"
proof -
  have "chunk \<noteq> []" using assms(4,5) by auto
  then show ?thesis
    using assms by (simp add: Let_def del: One_nat_def butlast.simps length_butlast)
qed

lemma ws_forward_pass:
  assumes "\<not> stop" and "\<not> aborted u" and "polled u = Item (Some chunk)"
    and "c1 = (if length chunk mod 2 = 1 then butlast chunk else chunk)"
    and "c1 \<noteq> []" and "\<not> (t \<noteq> 0 \<and> i \<noteq> 0 \<and> t \<noteq> i)"
  shows "ws_forward rc t i (u # us) stop st =
     (if send_ok u
      then (case ws_forward rc t i us False st of (ys, sp, st, e) \<Rightarrow> (c1 # ys, sp, st, e))
      else ([], False, st, Exited))"
proof -
  have "chunk \<noteq> []" using assms(4,5) by auto
  then show ?thesis
    using assms
    by (auto simp add: Let_def simp del: One_nat_def butlast.simps length_butlast)
qed


declare ws_forward.simps(2) [simp del]



lemma ws_forward_append:
  assumes "ws_forward rc t i us stop st = (fr, sp, st', Waiting)"
  shows "ws_forward rc t i (us @ vs) stop st =
     (case ws_forward rc t i vs sp st' of (fr2, sp2, st2, e) \<Rightarrow> (fr @ fr2, sp2, st2, e))"
  using assms
proof (induction us arbitrary: stop st fr)
  case Nil
  then show ?case by (simp split: prod.split)
next
  case (Cons u us)
  show ?case
  proof (cases "stop \<or> aborted u")
    case True
    then show ?thesis using Cons.prems by (simp add: ws_forward_stop)
  next
    case False
    then have ns: "\<not> stop" "\<not> aborted u" by auto
    show ?thesis
    proof (cases "polled u")
      case (Empty s)
      then show ?thesis
        using Cons.prems Cons.IH
        by (simp add: ws_forward_empty [OF ns] split: if_splits)
    next
      case (Item x)
      show ?thesis
      proof (cases x)
        case None
        then show ?thesis using Item Cons.prems by (simp add: ws_forward_end_marker [OF ns])
      next
        case (Some chunk)
        define c1 where "c1 = (if length chunk mod 2 = 1 then butlast chunk else chunk)"
        have pu: "polled u = Item (Some chunk)" using Item Some by simp
        consider (skip) "c1 = []" | (conv) "c1 \<noteq> []" "t \<noteq> 0 \<and> i \<noteq> 0 \<and> t \<noteq> i"
          | (pass) "c1 \<noteq> []" "\<not> (t \<noteq> 0 \<and> i \<noteq> 0 \<and> t \<noteq> i)"
          by blast
        then show ?thesis
        proof cases
          case skip
          have a: "ws_forward rc t i (u # us) stop st = ws_forward rc t i us False st"
            and b: "ws_forward rc t i ((u # us) @ vs) stop st = ws_forward rc t i (us @ vs) False st"
            using ws_forward_skip [OF ns pu] skip c1_def by simp_all
          show ?thesis
            using Cons.prems Cons.IH unfolding a b by simp
        next
          case conv
          show ?thesis
          proof (cases "rc c1 i t st")
            case (Inl e)
            then show ?thesis
              using Cons.prems unfolding ws_forward_convert [OF ns pu c1_def conv] by simp
          next
            case (Inr r)
            obtain out s' where r: "r = (out, s')" by (cases r)
            show ?thesis
            proof (cases "out = []")
              case True
              have a: "ws_forward rc t i (u # us) stop st = ws_forward rc t i us False (Some s')"
                and b: "ws_forward rc t i ((u # us) @ vs) stop st
                          = ws_forward rc t i (us @ vs) False (Some s')"
                using ws_forward_convert [OF ns pu c1_def conv] Inr r True by simp_all
              show ?thesis
                using Cons.prems Cons.IH unfolding a b by simp
            next
              case False
              note ne = this
              show ?thesis
              proof (cases "send_ok u")
                case True
                have a: "ws_forward rc t i (u # us) stop st =
                    (case ws_forward rc t i us False (Some s') of
                       (ys, sp, st, e) \<Rightarrow> (out # ys, sp, st, e))"
                  and b: "ws_forward rc t i ((u # us) @ vs) stop st =
                    (case ws_forward rc t i (us @ vs) False (Some s') of
                       (ys, sp, st, e) \<Rightarrow> (out # ys, sp, st, e))"
                  using ws_forward_convert [OF ns pu c1_def conv] Inr r ne True by simp_all
                obtain fr0 where fr0: "ws_forward rc t i us False (Some s') = (fr0, sp, st', Waiting)"
                  and fr: "fr = out # fr0"
                  using Cons.prems unfolding a
                  by (cases "ws_forward rc t i us False (Some s')") auto
                show ?thesis
                  unfolding b Cons.IH [OF fr0] fr by (simp split: prod.split)
              next
                case False
                then show ?thesis
                  using Cons.prems ws_forward_convert [OF ns pu c1_def conv] Inr r ne by simp
              qed
            qed
          qed
        next
          case pass
          show ?thesis
          proof (cases "send_ok u")
            case True
            have a: "ws_forward rc t i (u # us) stop st =
                (case ws_forward rc t i us False st of
                   (ys, sp, st, e) \<Rightarrow> (c1 # ys, sp, st, e))"
              and b: "ws_forward rc t i ((u # us) @ vs) stop st =
                (case ws_forward rc t i (us @ vs) False st of
                   (ys, sp, st, e) \<Rightarrow> (c1 # ys, sp, st, e))"
              using ws_forward_pass [OF ns pu c1_def pass] True by simp_all
            obtain fr0 where fr0: "ws_forward rc t i us False st = (fr0, sp, st', Waiting)"
              and fr: "fr = c1 # fr0"
              using Cons.prems unfolding a
              by (cases "ws_forward rc t i us False st") auto
            show ?thesis
              unfolding b Cons.IH [OF fr0] fr by (simp split: prod.split)
          next
            case False
            then show ?thesis
              using Cons.prems ws_forward_pass [OF ns pu c1_def pass] by simp
          qed
        qed
      qed
    qed
  qed
qed




section \<open>The connection\<close>

lemma step_hello:
  "ws_step env (hello_msg sr) c =
     (case env_tts_sample_rate env of
        None \<Rightarrow> (Closed, c\<lparr>session := (session c)\<lparr>sample_rate := JInt sr\<rparr>\<rparr>)
      | Some r \<Rightarrow> (Open, add_trace [Send_json (Hello (session_id (session c)) r)]
                      (c\<lparr>session := (session c)\<lparr>sample_rate := JInt sr\<rparr>\<rparr>)))"
  by (simp add: ws_step_def hello_msg_def dict_get_def ws_hello_def Let_def)

lemma step_listen_start:
  "ws_step env listen_start_msg c = (Open, ws_handle_listen_start c)"
  by (simp add: ws_step_def listen_start_msg_def dict_get_def)

lemma step_listen_stop:
  "ws_step env listen_stop_msg c =
     (of_outcome (fst (ws_handle_listen_stop env c)), snd (ws_handle_listen_stop env c))"
  by (simp add: ws_step_def listen_stop_msg_def dict_get_def split: prod.split)

lemma step_abort:
  "ws_step env abort_msg c = (Open, ws_handle_abort c)"
  by (simp add: ws_step_def abort_msg_def dict_get_def)

lemma step_bytes:
  "ws_step env (Bytes b) c =
     (if state (session c) = Listening
      then (Open, c\<lparr>session := (session c)\<lparr>audio_buffer := audio_buffer (session c) @ b\<rparr>\<rparr>)
      else (Open, c))"
  by (simp add: ws_step_def)

lemma step_malformed: "ws_step env (Text JSONDecodeError) c = (Open, c)"
  by (simp add: ws_step_def)

lemma step_raises: "ws_step env (Text (Raises e)) c = (Closed, c)"
  by (simp add: ws_step_def)

text \<open>
  The frames on which \<open>json.loads\<close> raises \<open>JSONDecodeError\<close> are dropped: the receive loop
  does on a sequence of messages what it does on the sequence without them.
\<close>

lemma decode_errors_dropped:
  "ws_run (filter (\<lambda>(env, m). m \<noteq> Text JSONDecodeError) ms) c = ws_run ms c"
proof (induction ms arbitrary: c)
  case Nil
  show ?case by simp
next
  case (Cons x ms)
  obtain env m where x: "x = (env, m)" by (cases x)
  show ?case
  proof (cases "m = Text JSONDecodeError")
    case True
    then show ?thesis using x Cons.IH by (simp add: step_malformed)
  next
    case False
    obtain st c1 where s: "ws_step env m c = (st, c1)" by (cases "ws_step env m c")
    show ?thesis using x False s Cons.IH by (cases st) simp_all
  qed
qed

lemma run_bytes:
  "state (session c) = Listening \<Longrightarrow>
   ws_run (map (\<lambda>b. (env, Bytes b)) frames) c =
     (Open, c\<lparr>session := (session c)\<lparr>audio_buffer := audio_buffer (session c) @ concat frames\<rparr>\<rparr>)"
proof (induction frames arbitrary: c)
  case Nil
  then show ?case by simp
next
  case (Cons b frames)
  then show ?case by (simp add: step_bytes)
qed

lemma ws_run_append:
  "ws_run xs c = (Open, c') \<Longrightarrow> ws_run (xs @ ys) c = ws_run ys c'"
proof (induction xs arbitrary: c)
  case Nil
  then show ?case by simp
next
  case (Cons x xs)
  obtain env m where x: "x = (env, m)" by (cases x)
  obtain s c1 where st: "ws_step env m c = (s, c1)" by (cases "ws_step env m c")
  show ?case
    using Cons.prems Cons.IH [of c1] x st by (cases s) simp_all
qed

lemma ws_run_single: "snd (ws_run [(env, m)] c) = snd (ws_step env m c)"
  by (cases "ws_step env m c"; cases "fst (ws_step env m c)") auto

lemma ws_speak_trace:
  "\<exists>es. trace (snd (ws_speak env t user c)) = trace c @ es"
  by (auto simp: ws_speak_def add_trace_def set_state_def Let_def
           split: prod.splits option.splits sum.splits ending.splits)

lemma ws_speak_state:
  "state (session (snd (ws_speak env t user c))) \<in> {Idle, state (session c)}"
  by (auto simp: ws_speak_def add_trace_def set_state_def Let_def
           split: prod.splits option.splits sum.splits ending.splits)

lemma ws_speak_not_listening:
  assumes "state (session c) = Speaking"
  shows "state (session (snd (ws_speak env t u c))) \<noteq> Listening"
proof -
  have "state (session (snd (ws_speak env t u c))) \<in> {Idle, Speaking}"
    using ws_speak_state [of env t u c] assms by simp
  then show ?thesis by auto
qed

lemma ws_speak_exited:
  assumes "env_max_turns env = Some keep" and "\<forall>m. start_bridge env m = Inr i"
    and "ws_forward (env_ratecv env) t i (turns env) (stop_speaking (session c)) None
           = (frames, sp, st, Exited)"
  shows "fst (ws_speak env t user c) = Returned \<and>
         state (session (snd (ws_speak env t user c))) = Idle \<and>
         stop_speaking (session (snd (ws_speak env t user c))) = sp \<and>
         (\<exists>m. trace (snd (ws_speak env t user c)) =
            trace c @ [Send_json (Tts_start (session_id (session c))), Bridge_call m]
              @ map Send_audio frames
              @ [Stop_evt_set, Send_json (Tts_stop (session_id (session c)))])"
proof -
  obtain d store msgs where so:
    "session_of (sessions c) (device_id (session c)) (env_system_prompt env) = (d, store, msgs)"
    by (cases "session_of (sessions c) (device_id (session c)) (env_system_prompt env)")
  show ?thesis
    using assms so
    by (simp add: ws_speak_def Let_def add_trace_def set_state_def)
qed

lemma listen_stop_to_speak:
  assumes "state (session c) = Listening" and "env_api_key env = Some k"
    and "env_tts_sample_rate env = Some t" and "1600 \<le> length (audio_buffer (session c))"
    and "pcm_to_wav env (audio_buffer (session c)) (sample_rate (session c)) = Inr wav"
    and "qwen_asr env wav = Inr tx" and "strip tx \<noteq> []"
  shows "ws_handle_listen_stop env c =
     ws_speak env t (strip tx)
       (add_trace [Asr_call wav, Send_json (Stt (session_id (session c)) (strip tx))]
          (c\<lparr>session := (session c)\<lparr>state := Speaking, stop_speaking := False\<rparr>\<rparr>))"
  using assms by (simp add: ws_handle_listen_stop_def Let_def add_trace_def)

lemma listen_stop_reads_buffer:
  assumes "state (session c) = Listening" and "env_api_key env = Some k"
    and "env_tts_sample_rate env = Some r" and "1600 \<le> length (audio_buffer (session c))"
    and "pcm_to_wav env (audio_buffer (session c)) (sample_rate (session c)) = Inr wav"
  shows "\<exists>es. trace (snd (ws_handle_listen_stop env c)) = trace c @ Asr_call wav # es"
proof -
  let ?c2 = "add_trace [Asr_call wav]
     (c\<lparr>session := (session c)\<lparr>state := Speaking, stop_speaking := False\<rparr>\<rparr>)"
  have t2: "trace ?c2 = trace c @ [Asr_call wav]"
    by (simp add: add_trace_def)
  have a: "ws_handle_listen_stop env c =
     (case qwen_asr env wav of
           Inl e \<Rightarrow> (Returned, set_state Idle ?c2)
         | Inr text \<Rightarrow>
             if strip text = [] then (Returned, set_state Idle ?c2)
             else ws_speak env r (strip text)
                    (add_trace [Send_json (Stt (session_id (session ?c2)) (strip text))] ?c2))"
    using assms by (simp add: ws_handle_listen_stop_def Let_def)
  show ?thesis
  proof (cases "qwen_asr env wav")
    case (Inl e)
    then show ?thesis unfolding a by (simp add: set_state_def add_trace_def)
  next
    case (Inr tx)
    show ?thesis
    proof (cases "strip tx = []")
      case True
      then show ?thesis unfolding a Inr by (simp add: set_state_def add_trace_def)
    next
      case False
      obtain es where "trace (snd (ws_speak env r (strip tx)
           (add_trace [Send_json (Stt (session_id (session ?c2)) (strip tx))] ?c2)))
         = trace (add_trace [Send_json (Stt (session_id (session ?c2)) (strip tx))] ?c2) @ es"
        using ws_speak_trace by blast
      then show ?thesis
        unfolding a Inr using False by (simp add: add_trace_def)
    qed
  qed
qed

lemma listen_stop_not_listening:
  "state (session (snd (ws_handle_listen_stop env c))) \<noteq> Listening"
proof (cases "state (session c) = Listening")
  case False
  then show ?thesis by (simp add: ws_handle_listen_stop_def)
next
  case L: True
  show ?thesis
  proof (cases "env_api_key env")
    case None
    then show ?thesis using L by (simp add: ws_handle_listen_stop_def)
  next
    case (Some k)
    note key = this
    show ?thesis
    proof (cases "env_tts_sample_rate env")
      case None
      then show ?thesis using L key by (simp add: ws_handle_listen_stop_def)
    next
      case (Some r)
      note rate = this
      show ?thesis
      proof (cases "length (audio_buffer (session c)) < 1600")
        case True
        then show ?thesis
          using L key rate by (simp add: ws_handle_listen_stop_def set_state_def)
      next
        case False
        note long = this
        show ?thesis
        proof (cases "pcm_to_wav env (audio_buffer (session c)) (sample_rate (session c))")
          case (Inl e)
          then show ?thesis
            using L key rate long by (simp add: ws_handle_listen_stop_def)
        next
          case (Inr wav)
          note wav = this
          show ?thesis
          proof (cases "qwen_asr env wav")
            case (Inl e)
            then show ?thesis
              using L key rate long wav
              by (simp add: ws_handle_listen_stop_def set_state_def add_trace_def)
          next
            case (Inr tx)
            show ?thesis
            proof (cases "strip tx = []")
              case True
              then show ?thesis
                using L key rate long wav Inr
                by (simp add: ws_handle_listen_stop_def set_state_def add_trace_def)
            next
              case False
              then show ?thesis
                using L key rate long wav Inr
                by (simp add: ws_handle_listen_stop_def Let_def ws_speak_not_listening
                      add_trace_def)
            qed
          qed
        qed
      qed
    qed
  qed
qed

text \<open>
  C4. The specification asks that every text frame whose payload is not valid JSON is
  dropped and the connection stays open. Line 904 catches \<open>JSONDecodeError\<close> and nothing
  else. A payload of 2000 opening square brackets is not valid JSON, and \<open>json.loads\<close>
  ends on it with \<open>RecursionError\<close>: the exception passes line 904, the handler of line
  945 ends the receive loop, and the connection is closed; the messages that follow are
  not read. So a handshake sent after such a frame gets no reply, while after a frame that
  \<open>json.loads\<close> rejects with \<open>JSONDecodeError\<close> it gets one.
\<close>

theorem deep_nesting_closes_connection:
  "ws_step env (Text (Raises RecursionError)) c = (Closed, c)
   \<and> ws_run ((env, Text (Raises RecursionError)) # rest) c = (Closed, c)
   \<and> ws_run [(demo_env, Text (Raises RecursionError)), (demo_env, hello_msg 16000)]
        (accept [115] (ascii ''dev'') Map.empty)
      = (Closed, accept [115] (ascii ''dev'') Map.empty)
   \<and> trace (accept [115] (ascii ''dev'') Map.empty) = []
   \<and> fst (ws_run [(demo_env, Text JSONDecodeError), (demo_env, hello_msg 16000)]
        (accept [115] (ascii ''dev'') Map.empty)) = Open
   \<and> trace (snd (ws_run [(demo_env, Text JSONDecodeError), (demo_env, hello_msg 16000)]
        (accept [115] (ascii ''dev'') Map.empty))) = [Send_json (Hello [115] 16000)]"
  by (simp add: step_raises step_malformed step_hello demo_env_def accept_def add_trace_def
        WsSession_def)

text \<open>
  C9. A binary frame that arrives while the session is not listening changes nothing.
  Listen-start empties the buffer and makes the session listening. After listen-start and
  the binary frames that follow it the buffer is their concatenation in arrival order, and
  that is what listen-stop reads: when the key and the rate are configured and the capture
  has at least 1600 bytes, the transcription is called on the WAV made of exactly these
  bytes. After listen-stop the session is no longer listening.
\<close>

theorem capture_buffer_only_while_listening:
  "(state (session c) \<noteq> Listening \<longrightarrow> ws_step env (Bytes b) c = (Open, c))
   \<and> ws_step env listen_start_msg c
       = (Open, c\<lparr>session := (session c)\<lparr>audio_buffer := [], state := Listening\<rparr>\<rparr>)
   \<and> ws_run ((env, listen_start_msg) # map (\<lambda>b. (env, Bytes b)) frames) c
       = (Open, c\<lparr>session := (session c)\<lparr>audio_buffer := concat frames, state := Listening\<rparr>\<rparr>)
   \<and> (env_api_key env = Some k \<and> env_tts_sample_rate env = Some r
        \<and> 1600 \<le> length (concat frames)
        \<and> pcm_to_wav env (concat frames) (sample_rate (session c)) = Inr wav
      \<longrightarrow> (\<exists>es. trace (snd (ws_run ((env, listen_start_msg) # map (\<lambda>b. (env, Bytes b)) frames
                                      @ [(env, listen_stop_msg)]) c))
                = trace c @ Asr_call wav # es))
   \<and> state (session (snd (ws_step env listen_stop_msg c))) \<noteq> Listening"
proof -
  let ?c1 = "c\<lparr>session := (session c)\<lparr>audio_buffer := [], state := Listening\<rparr>\<rparr>"
  let ?c2 = "c\<lparr>session := (session c)\<lparr>audio_buffer := concat frames, state := Listening\<rparr>\<rparr>"
  have a: "state (session c) \<noteq> Listening \<Longrightarrow> ws_step env (Bytes b) c = (Open, c)"
    by (simp add: step_bytes)
  have b: "ws_step env listen_start_msg c = (Open, ?c1)"
    by (simp add: step_listen_start ws_handle_listen_start_def)
  have "ws_run (map (\<lambda>b. (env, Bytes b)) frames) ?c1 = (Open, ?c2)"
    using run_bytes [of ?c1 env frames] by simp
  then have c: "ws_run ((env, listen_start_msg) # map (\<lambda>b. (env, Bytes b)) frames) c
      = (Open, ?c2)"
    using b by simp
  have d: "\<exists>es. trace (snd (ws_run ((env, listen_start_msg) # map (\<lambda>b. (env, Bytes b)) frames
                                      @ [(env, listen_stop_msg)]) c))
                = trace c @ Asr_call wav # es"
    if h: "env_api_key env = Some k" "env_tts_sample_rate env = Some r"
      "1600 \<le> length (concat frames)"
      "pcm_to_wav env (concat frames) (sample_rate (session c)) = Inr wav"
  proof -
    have "ws_run (((env, listen_start_msg) # map (\<lambda>b. (env, Bytes b)) frames)
                   @ [(env, listen_stop_msg)]) c = ws_run [(env, listen_stop_msg)] ?c2"
      by (rule ws_run_append [OF c])
    then have eq: "snd (ws_run ((env, listen_start_msg) # map (\<lambda>b. (env, Bytes b)) frames
                                      @ [(env, listen_stop_msg)]) c)
        = snd (ws_handle_listen_stop env ?c2)"
      by (simp only: append_Cons ws_run_single step_listen_stop snd_conv)
    show ?thesis
      unfolding eq
      using listen_stop_reads_buffer [of ?c2 env k r wav] h by simp
  qed
  have e: "state (session (snd (ws_step env listen_stop_msg c))) \<noteq> Listening"
    by (simp add: step_listen_stop listen_stop_not_listening)
  show ?thesis
    using a b c d e by blast
qed

theorem capture_buffer_only_while_listening_witness:
  "ws_step demo_env (Bytes [9, 9]) (accept [115] (ascii ''dev'') Map.empty)
     = (Open, accept [115] (ascii ''dev'') Map.empty)
   \<and> audio_buffer (session (snd (ws_run [(demo_env, Bytes [9, 9]), (demo_env, listen_start_msg),
         (demo_env, Bytes [1, 2]), (demo_env, Bytes [3, 4, 5])]
         (accept [115] (ascii ''dev'') Map.empty)))) = [1, 2, 3, 4, 5]"
proof -
  let ?c = "accept [115] (ascii ''dev'') Map.empty"
  have n: "state (session ?c) \<noteq> Listening"
    by (simp add: accept_def WsSession_def)
  have a: "ws_step demo_env (Bytes [9, 9]) ?c = (Open, ?c)"
    using capture_buffer_only_while_listening [of ?c demo_env "[9, 9]" "[]"] n by blast
  have b: "ws_run ((demo_env, listen_start_msg) # map (\<lambda>b. (demo_env, Bytes b)) [[1, 2], [3, 4, 5]]) ?c
       = (Open, ?c\<lparr>session := (session ?c)\<lparr>audio_buffer := concat [[1, 2], [3, 4, 5]],
                                              state := Listening\<rparr>\<rparr>)"
    using capture_buffer_only_while_listening [of ?c demo_env "[9, 9]" "[[1, 2], [3, 4, 5]]"]
    by blast
  show ?thesis
    using a b by simp
qed

lemma abort_changes_no_trace:
  "trace (snd (ws_run [(env, listen_stop_msg), (env', abort_msg)] c))
     = trace (snd (ws_run [(env, listen_stop_msg)] c))"
proof -
  obtain st c1 where s: "ws_step env listen_stop_msg c = (st, c1)"
    by (cases "ws_step env listen_stop_msg c")
  show ?thesis
    using s by (cases st) (simp_all add: step_abort ws_handle_abort_def)
qed

lemma stream_forward:
  "ws_forward double_rate 16000 16000 stream_turns False None
     = ([[1, 2], [3, 4], [5, 6]], False, None, Exited)"
  by (simp add: stream_turns_def ws_forward.simps)

lemma stream_listen_stop:
  "ws_handle_listen_stop stream_env listening_conn =
     (Returned,
      \<lparr>session = \<lparr>session_id = [115], device_id = ascii ''dev'',
                   audio_buffer = replicate 1600 0, sample_rate = JInt 16000, state = Idle,
                   stop_speaking = False\<rparr>,
       sessions = [ascii ''dev'' \<mapsto> [Msg System [], Msg User [20320, 22909]]],
       trace = [Asr_call (replicate 1600 0), Send_json (Stt [115] [20320, 22909]),
                Send_json (Tts_start [115]),
                Bridge_call [Msg System [], Msg User [20320, 22909]],
                Send_audio [1, 2], Send_audio [3, 4], Send_audio [5, 6], Stop_evt_set,
                Send_json (Tts_stop [115])]\<rparr>)"
proof -
  have s: "strip [20320, 22909] = [20320, 22909]" "strip [100, 101, 118] = [100, 101, 118]"
    by (simp_all add: strip_def isspace_def)
  have so: "session_of Map.empty [100, 101, 118] [] =
      ([100, 101, 118], [[100, 101, 118] \<mapsto> [Msg System []]], [Msg System []])"
    by (simp add: session_of_def Let_def s)
  have tr: "trim_session [Msg System [], Msg User [20320, 22909]] 12
      = [Msg System [], Msg User [20320, 22909]]"
    by (simp add: trim_session_def)
  have a: "ws_handle_listen_stop stream_env listening_conn =
     ws_speak stream_env 16000 [20320, 22909]
       (add_trace [Asr_call (replicate 1600 0), Send_json (Stt [115] [20320, 22909])]
          (listening_conn\<lparr>session := (session listening_conn)
              \<lparr>state := Speaking, stop_speaking := False\<rparr>\<rparr>))"
    using listen_stop_to_speak [of listening_conn stream_env "ascii ''sk-demo''" 16000
        "replicate 1600 0" "[20320, 22909]"]
    by (simp add: stream_env_def demo_env_def listening_conn_def s)
  show ?thesis
    unfolding a
    by (simp add: ws_speak_def stream_env_def demo_env_def listening_conn_def add_trace_def
          set_state_def so tr stream_forward Let_def)
qed

text \<open>
  C5. The specification asks that an abort message sent while a reply is streamed stops
  the forwarding of audio, and the docstring of \<open>_ws_handle_abort\<close> says that it stops the
  current playback. The receive loop awaits \<open>_ws_handle_listen_stop\<close> (line 933) and
  reads no message until it has returned, and \<open>_ws_handle_abort\<close> (line 861) is the only
  place that sets the flag: an abort message sent during the reply is handled after the last
  frame and the synthesis-stop notification have been sent. It sets the flag, and it
  changes nothing that was sent: the effects are those of the run without the abort. In the
  example the reply has three chunks, and all three are forwarded. An abort message handled
  before listen-stop stops nothing either, since line 746 clears the flag.
\<close>

theorem abort_mid_stream_stops_nothing:
  "ws_step env abort_msg c = (Open, c\<lparr>session := (session c)\<lparr>stop_speaking := True\<rparr>\<rparr>)
   \<and> trace (snd (ws_run [(env, listen_stop_msg), (env', abort_msg)] c))
     = trace (snd (ws_run [(env, listen_stop_msg)] c))
   \<and> trace (snd (ws_run [(stream_env, listen_stop_msg), (stream_env, abort_msg)]
                  listening_conn))
     = [Asr_call (replicate 1600 0), Send_json (Stt [115] [20320, 22909]),
        Send_json (Tts_start [115]), Bridge_call [Msg System [], Msg User [20320, 22909]],
        Send_audio [1, 2], Send_audio [3, 4], Send_audio [5, 6], Stop_evt_set,
        Send_json (Tts_stop [115])]
   \<and> stop_speaking (session (snd (ws_run [(stream_env, listen_stop_msg),
                  (stream_env, abort_msg)] listening_conn)))
   \<and> trace (snd (ws_run [(stream_env, abort_msg), (stream_env, listen_stop_msg)]
                  listening_conn))
     = [Asr_call (replicate 1600 0), Send_json (Stt [115] [20320, 22909]),
        Send_json (Tts_start [115]), Bridge_call [Msg System [], Msg User [20320, 22909]],
        Send_audio [1, 2], Send_audio [3, 4], Send_audio [5, 6], Stop_evt_set,
        Send_json (Tts_stop [115])]"
proof -
  have b: "ws_handle_listen_stop stream_env
      (listening_conn\<lparr>session := (session listening_conn)\<lparr>stop_speaking := True\<rparr>\<rparr>)
      = ws_handle_listen_stop stream_env listening_conn"
    by (simp add: ws_handle_listen_stop_def listening_conn_def)
  have r1: "ws_run [(stream_env, listen_stop_msg), (stream_env, abort_msg)] listening_conn
      = (Open, ws_handle_abort (snd (ws_handle_listen_stop stream_env listening_conn)))"
    by (simp add: step_listen_stop step_abort stream_listen_stop of_outcome_def)
  have r2: "ws_run [(stream_env, abort_msg), (stream_env, listen_stop_msg)] listening_conn
      = (Open, snd (ws_handle_listen_stop stream_env listening_conn))"
    by (simp add: step_listen_stop step_abort ws_handle_abort_def b stream_listen_stop
          of_outcome_def)
  show ?thesis
    unfolding r1 r2 abort_changes_no_trace
    by (simp add: ws_handle_abort_def stream_listen_stop step_abort)
qed

text \<open>
  C1. The specification's scenario: after a handshake with rate 16000, listen-start and
  2000 bytes of audio, listen-stop returns to idle without transcription. The test of line
  757 compares the length with 1600 bytes, which is 50 ms at 16 kHz and 16 bits, not the
  100 ms of its comment: 2000 bytes pass it and the transcription is called.
\<close>

theorem short_capture_is_transcribed:
  assumes "env_api_key env = Some k" and "env_tts_sample_rate env = Some r"
    and "pcm_to_wav env (replicate 2000 0) (JInt 16000) = Inr wav"
  shows "\<exists>es. trace (snd (ws_run [(env, hello_msg 16000), (env, listen_start_msg),
             (env, Bytes (replicate 2000 0)), (env, listen_stop_msg)] (accept sid dev store)))
           = [Send_json (Hello sid r), Asr_call wav] @ es"
proof -
  let ?c3 = "\<lparr>session = \<lparr>session_id = sid, device_id = dev, audio_buffer = replicate 2000 0,
                 sample_rate = JInt 16000, state = Listening, stop_speaking = False\<rparr>,
               sessions = store, trace = [Send_json (Hello sid r)]\<rparr>"
  have pre: "ws_run [(env, hello_msg 16000), (env, listen_start_msg),
                 (env, Bytes (replicate 2000 0))] (accept sid dev store) = (Open, ?c3)"
    using assms(2)
    by (simp add: step_hello step_listen_start step_bytes accept_def WsSession_def
          add_trace_def ws_handle_listen_start_def)
  have "ws_run ([(env, hello_msg 16000), (env, listen_start_msg),
                 (env, Bytes (replicate 2000 0))] @ [(env, listen_stop_msg)]) (accept sid dev store)
          = ws_run [(env, listen_stop_msg)] ?c3"
    by (rule ws_run_append [OF pre])
  then have eq: "snd (ws_run [(env, hello_msg 16000), (env, listen_start_msg),
             (env, Bytes (replicate 2000 0)), (env, listen_stop_msg)] (accept sid dev store))
          = snd (ws_handle_listen_stop env ?c3)"
    by (simp only: append_Cons append_Nil ws_run_single step_listen_stop snd_conv)
  obtain es where "trace (snd (ws_handle_listen_stop env ?c3)) = trace ?c3 @ Asr_call wav # es"
    using listen_stop_reads_buffer [of ?c3 env k r wav] assms by auto
  then show ?thesis
    unfolding eq by simp
qed

theorem short_capture_is_transcribed_witness:
  "\<exists>es. trace (snd (ws_run [(demo_env, hello_msg 16000), (demo_env, listen_start_msg),
             (demo_env, Bytes (replicate 2000 0)), (demo_env, listen_stop_msg)]
             (accept [115] (ascii ''dev'') Map.empty)))
           = [Send_json (Hello [115] 16000), Asr_call (replicate 2000 0)] @ es"
  using short_capture_is_transcribed [of demo_env "ascii ''sk-demo''" 16000 "replicate 2000 0"]
  by (simp add: demo_env_def)

end
